theory Spec2Isabelle
  imports Complex_Main
begin

section \<open>Image Weighted Collage: the placement engine of \<open>Image-WeightedCollage.py\<close>\<close>

text \<open>
  Python's \<open>float\<close> values are modelled as exact real numbers and Python's unbounded
  \<open>int\<close> as \<open>int\<close>. The code computes in binary floating point, so a value of the
  model can differ from the computed one by the rounding of the operations, and a
  truncation \<open>int(f)\<close> that sits exactly on an integer in the model can fall just below
  it in the code. The example inputs below are chosen so that the two agree. Pixel data
  (the \<open>image\<close> key of a node) is opaque to the placement engine and is left out of the
  model.
\<close>

subsection \<open>Parameters\<close>

definition TARGET_SIZE :: "int \<times> int" where
  "TARGET_SIZE = (4096, 4096)"

definition MARGIN_DISTANCE :: real where
  "MARGIN_DISTANCE = 8"

definition INITIAL_RADIUS :: real where
  "INITIAL_RADIUS = 512"

definition MAX_INITIAL_DIM :: int where
  "MAX_INITIAL_DIM = 512"

definition RANDOM_COUNT :: nat where
  "RANDOM_COUNT = 25"

definition SCALE_FACTOR :: real where
  "SCALE_FACTOR = 95 / 100"

definition MAX_SCALE_DOWN :: real where
  "MAX_SCALE_DOWN = 75 / 100"

definition MAX_RESCALE_ATTEMPTS :: nat where
  "MAX_RESCALE_ATTEMPTS = 16"

definition MAX_MOVEMENT_PER_ITER :: real where
  "MAX_MOVEMENT_PER_ITER = 128"

definition REPULSION_STRENGTH :: real where
  "REPULSION_STRENGTH = 10"

definition ATTRACTION_RATE :: "real \<times> real" where
  "ATTRACTION_RATE = (1 / 10000, 1 / 1000)"

definition ATTRACTION_WEIGHT :: real where
  "ATTRACTION_WEIGHT = 1 / 10000"

definition RELAXATION_ITERATIONS :: nat where
  "RELAXATION_ITERATIONS = 4096"

definition CENTER :: "int \<times> int" where
  "CENTER = (fst TARGET_SIZE div 2, snd TARGET_SIZE div 2)"

subsection \<open>Errors and nodes\<close>

datatype error =
    IOError             \<comment> \<open>\<open>OSError\<close> and its subclasses, as raised by \<open>os.listdir\<close> and \<open>save\<close>\<close>
  | DecodeError         \<comment> \<open>\<open>Image.open\<close> failing on a path\<close>
  | IndexError
  | ZeroDivisionError
  | OverflowError

text \<open>
  A node is a dictionary. \<open>load_images\<close> creates it without the keys \<open>x\<close> and \<open>y\<close>;
  \<open>place_initial\<close> adds them to every node. The two shapes are two record types, the
  placed node extending the loaded one.
\<close>

record node =
  orig_width :: int
  orig_height :: int
  width :: int
  height :: int
  scale :: real
  fixed :: bool

record pnode = node +
  x :: real
  y :: real

text \<open>\<open>int(f)\<close> on a float truncates towards zero.\<close>

definition py_int :: "real \<Rightarrow> int" where
  "py_int r = (if 0 \<le> r then \<lfloor>r\<rfloor> else \<lceil>r\<rceil>)"

subsection \<open>Loading and the initial downscaler\<close>

text \<open>
  \<open>Image.open(path).convert("RGBA")\<close> is an external decoder. It is a parameter of
  \<open>load_images\<close>: it gives \<open>img.size\<close>, or \<open>None\<close> where it raises.
\<close>

definition new_node :: "nat \<times> nat \<Rightarrow> node" where
  "new_node sz = \<lparr>orig_width = int (fst sz), orig_height = int (snd sz),
     width = int (fst sz), height = int (snd sz), scale = 1, fixed = False\<rparr>"

fun load_images :: "(string \<Rightarrow> (nat \<times> nat) option) \<Rightarrow> string list \<Rightarrow> error + node list" where
  "load_images img_open [] = Inr []"
| "load_images img_open (path # paths) =
     (case img_open path of
        None \<Rightarrow> Inl DecodeError
      | Some sz \<Rightarrow>
          (case load_images img_open paths of
             Inl e \<Rightarrow> Inl e
           | Inr nodes \<Rightarrow> Inr (new_node sz # nodes)))"

text \<open>The body of the loop of \<open>initial_rescale\<close>; \<open>/\<close> on two ints raises on a zero divisor.\<close>

definition initial_rescale_node :: "node \<Rightarrow> error + node" where
  "initial_rescale_node n =
     (if width n > MAX_INITIAL_DIM \<or> height n > MAX_INITIAL_DIM then
        if width n = 0 then Inl ZeroDivisionError
        else if height n = 0 then Inl ZeroDivisionError
        else
          let scale_w = real_of_int MAX_INITIAL_DIM / real_of_int (width n);
              scale_h = real_of_int MAX_INITIAL_DIM / real_of_int (height n);
              s = min scale_w scale_h
          in Inr (n\<lparr>scale := s,
                    width := py_int (real_of_int (orig_width n) * s),
                    height := py_int (real_of_int (orig_height n) * s)\<rparr>)
      else Inr n)"

fun initial_rescale :: "node list \<Rightarrow> error + node list" where
  "initial_rescale [] = Inr []"
| "initial_rescale (n # ns) =
     (case initial_rescale_node n of
        Inl e \<Rightarrow> Inl e
      | Inr n' \<Rightarrow> (case initial_rescale ns of Inl e \<Rightarrow> Inl e | Inr ns' \<Rightarrow> Inr (n' # ns')))"

subsection \<open>Ordering\<close>

text \<open>
  \<open>sorted(nodes, key=..., reverse=True)\<close> is a stable descending sort: a stable ascending
  sort on the negated key.
\<close>

definition sort_by_area :: "node list \<Rightarrow> node list" where
  "sort_by_area nodes = sort_key (\<lambda>n. - (width n * height n)) nodes"

definition sort_by_width :: "node list \<Rightarrow> node list" where
  "sort_by_width nodes = sort_key (\<lambda>n. - width n) nodes"

definition sort_by_height :: "node list \<Rightarrow> node list" where
  "sort_by_height nodes = sort_key (\<lambda>n. - height n) nodes"

text \<open>
  \<open>random.sample(nodes, len(nodes))\<close> returns a new list holding the nodes in a random
  order. The random source is a parameter \<open>rnd\<close>: draw \<open>k\<close> picks one of the nodes still
  in the pool.
\<close>

primrec sample_from :: "(nat \<Rightarrow> nat) \<Rightarrow> nat \<Rightarrow> 'a list \<Rightarrow> 'a list" where
  "sample_from rnd 0 pool = []"
| "sample_from rnd (Suc k) pool =
     (if pool = [] then []
      else let i = rnd k mod length pool
           in pool ! i # sample_from rnd k (take i pool @ drop (Suc i) pool))"

definition random_sample :: "(nat \<Rightarrow> nat) \<Rightarrow> 'a list \<Rightarrow> 'a list" where
  "random_sample rnd nodes = sample_from rnd (length nodes) nodes"

subsection \<open>Initial placement\<close>

definition place :: "node \<Rightarrow> real \<Rightarrow> real \<Rightarrow> pnode" where
  "place n px py = \<lparr>orig_width = orig_width n, orig_height = orig_height n,
     width = width n, height = height n, scale = scale n, fixed = fixed n,
     x = px, y = py\<rparr>"

definition angle_step :: "nat \<Rightarrow> real" where
  "angle_step num = 6 * pi / real_of_int (max 1 (int num - 1))"

definition place_on_circle :: "real \<Rightarrow> nat \<times> node \<Rightarrow> pnode" where
  "place_on_circle step inode =
     (case inode of (i, node) \<Rightarrow>
        let angle = step * (real i - 1)
        in place node (real_of_int (fst CENTER) + INITIAL_RADIUS * cos angle)
                      (real_of_int (snd CENTER) + INITIAL_RADIUS * sin angle))"

fun place_initial :: "node list \<Rightarrow> error + pnode list" where
  "place_initial [] = Inl IndexError"
| "place_initial (n0 # rest) =
     (let num = length (n0 # rest)
      in Inr (place (n0\<lparr>fixed := True\<rparr>) (real_of_int (fst CENTER)) (real_of_int (snd CENTER))
              # map (place_on_circle (angle_step num)) (enumerate 1 rest)))"

subsection \<open>Bounding boxes\<close>

type_synonym box = "real \<times> real \<times> real \<times> real"

definition bounding_box :: "pnode \<Rightarrow> box" where
  "bounding_box n =
     (x n - real_of_int (width n) / 2, y n - real_of_int (height n) / 2,
      x n + real_of_int (width n) / 2, y n + real_of_int (height n) / 2)"

text \<open>The margin is passed at every call; the source's default is \<open>MARGIN_DISTANCE\<close>.\<close>

definition boxes_overlap :: "box \<Rightarrow> box \<Rightarrow> real \<Rightarrow> bool" where
  "boxes_overlap b1 b2 margin =
     (case b1 of (ax1, ay1, ax2, ay2) \<Rightarrow> case b2 of (bx1, by1, bx2, by2) \<Rightarrow>
        \<not> (ax2 + margin < bx1 \<or> bx2 + margin < ax1 \<or>
           ay2 + margin < by1 \<or> by2 + margin < ay1))"

subsection \<open>The force field solver\<close>

text \<open>One round of the inner loop of \<open>apply_forces\<close>: the repulsion of node \<open>j\<close> on node \<open>i\<close>.\<close>

definition repulsion_step :: "nat \<Rightarrow> pnode \<Rightarrow> box \<Rightarrow> real \<times> real \<Rightarrow> nat \<times> pnode \<Rightarrow> real \<times> real" where
  "repulsion_step i n1 b1 force jn2 =
     (case force of (force_x, force_y) \<Rightarrow> case jn2 of (j, n2) \<Rightarrow>
        if i = j then force
        else
          let b2 = bounding_box n2
          in if boxes_overlap b1 b2 MARGIN_DISTANCE then
               let dx = x n1 - x n2;
                   dy = y n1 - y n2;
                   dist = sqrt (dx * dx + dy * dy) + 1 / 10;
                   factor = REPULSION_STRENGTH * (1 / dist)
               in (force_x + dx * factor, force_y + dy * factor)
             else force)"

definition attraction :: "pnode \<Rightarrow> box \<Rightarrow> real \<times> real \<Rightarrow> real \<times> real" where
  "attraction n1 b1 force =
     (case force of (force_x, force_y) \<Rightarrow> case b1 of (x1, y1, x2, y2) \<Rightarrow>
        let area_scale = ((x2 - x1) * (y2 - y1)) / real_of_int (fst TARGET_SIZE);
            dx_center = real_of_int (fst CENTER) - x n1;
            dy_center = real_of_int (snd CENTER) - y n1
        in (force_x + dx_center * (fst ATTRACTION_RATE + area_scale * ATTRACTION_WEIGHT),
            force_y + dy_center * (snd ATTRACTION_RATE + area_scale * ATTRACTION_WEIGHT)))"

definition limit_movement :: "real \<times> real \<Rightarrow> real \<times> real" where
  "limit_movement force =
     (case force of (force_x, force_y) \<Rightarrow>
        let dist_move = sqrt (force_x * force_x + force_y * force_y)
        in if dist_move > MAX_MOVEMENT_PER_ITER then
             let s = MAX_MOVEMENT_PER_ITER / dist_move
             in (force_x * s, force_y * s)
           else force)"

text \<open>
  The body of the outer loop for node \<open>i\<close>, reading the other nodes from \<open>nodes\<close>: a fixed
  node is skipped, every other node is moved by its force.
\<close>

definition node_force :: "nat \<Rightarrow> pnode list \<Rightarrow> real \<times> real" where
  "node_force i nodes =
     (let n1 = nodes ! i;
          b1 = bounding_box n1
      in limit_movement
           (attraction n1 b1 (foldl (repulsion_step i n1 b1) (0, 0) (enumerate 0 nodes))))"

definition move_node :: "nat \<Rightarrow> pnode list \<Rightarrow> pnode" where
  "move_node i nodes =
     (let n1 = nodes ! i
      in if fixed n1 then n1
         else case node_force i nodes of (force_x, force_y) \<Rightarrow>
                n1\<lparr>x := x n1 + force_x, y := y n1 + force_y\<rparr>)"

text \<open>The nodes are updated in place, one after the other, in list order.\<close>

definition apply_forces :: "pnode list \<Rightarrow> pnode list" where
  "apply_forces nodes = foldl (\<lambda>ns i. ns[i := move_node i ns]) nodes [0..<length nodes]"

subsection \<open>The overlap rescaler\<close>

definition shrink :: "pnode \<Rightarrow> real \<Rightarrow> pnode" where
  "shrink smaller new_scale =
     smaller\<lparr>scale := new_scale,
             width := py_int (real_of_int (orig_width smaller) * new_scale),
             height := py_int (real_of_int (orig_height smaller) * new_scale)\<rparr>"

text \<open>The body of the inner loop of \<open>attempt_rescale\<close>, on the state \<open>(changed, nodes)\<close>.\<close>

definition rescale_pair :: "nat \<Rightarrow> nat \<Rightarrow> bool \<times> pnode list \<Rightarrow> bool \<times> pnode list" where
  "rescale_pair i j st =
     (case st of (changed, nodes) \<Rightarrow>
        if i \<ge> j then st
        else
          let n1 = nodes ! i;
              n2 = nodes ! j;
              b1 = bounding_box n1;
              b2 = bounding_box n2
          in if boxes_overlap b1 b2 MARGIN_DISTANCE then
               let k = (if width n1 * height n1 < width n2 * height n2 then i else j);
                   smaller = nodes ! k;
                   new_scale = scale smaller * SCALE_FACTOR
               in if new_scale \<ge> MAX_SCALE_DOWN
                  then (True, nodes[k := shrink smaller new_scale])
                  else st
             else st)"

definition attempt_rescale :: "pnode list \<Rightarrow> bool \<times> pnode list" where
  "attempt_rescale nodes =
     foldl (\<lambda>st i. foldl (\<lambda>st' j. rescale_pair i j st') st [0..<length nodes])
       (False, nodes) [0..<length nodes]"

subsection \<open>The relaxation driver\<close>

text \<open>\<open>for attempt in range(k): if not attempt_rescale(nodes): break\<close>\<close>

fun rescale_attempts :: "nat \<Rightarrow> pnode list \<Rightarrow> pnode list" where
  "rescale_attempts 0 nodes = nodes"
| "rescale_attempts (Suc k) nodes =
     (case attempt_rescale nodes of (changed, nodes') \<Rightarrow>
        if \<not> changed then nodes' else rescale_attempts k nodes')"

definition relaxation_step :: "nat \<Rightarrow> pnode list \<Rightarrow> pnode list" where
  "relaxation_step iteration nodes =
     (let nodes' = apply_forces nodes
      in if iteration mod 20 = 0 then rescale_attempts MAX_RESCALE_ATTEMPTS nodes' else nodes')"

text \<open>The first \<open>k\<close> rounds of the loop of \<open>run_relaxation\<close>.\<close>

definition relax :: "nat \<Rightarrow> pnode list \<Rightarrow> pnode list" where
  "relax k nodes = foldl (\<lambda>ns iteration. relaxation_step iteration ns) nodes [0..<k]"

definition run_relaxation :: "pnode list \<Rightarrow> pnode list" where
  "run_relaxation nodes = relax RELAXATION_ITERATIONS nodes"

subsection \<open>Bounding and export\<close>

text \<open>
  \<open>compose_final_image\<close> is modelled up to the size of the canvas that it returns; creating,
  resampling and compositing the pixels is the work of the external image library, whose
  calls are taken to return. The
  running \<open>min\<close>/\<open>max\<close> start at plus and minus infinity, so that after the first node they
  are the edges of its box; on an empty list they stay infinite and \<open>int\<close> raises.
\<close>

definition grow_box :: "box \<Rightarrow> pnode \<Rightarrow> box" where
  "grow_box ext n =
     (case ext of (min_x, min_y, max_x, max_y) \<Rightarrow> case bounding_box n of (x1, y1, x2, y2) \<Rightarrow>
        (min min_x x1, min min_y y1, max max_x x2, max max_y y2))"

fun enclosing_box :: "pnode list \<Rightarrow> box option" where
  "enclosing_box [] = None"
| "enclosing_box (n # ns) = Some (foldl grow_box (bounding_box n) ns)"

definition scale_canvas :: "int \<Rightarrow> int \<Rightarrow> error + int \<times> int" where
  "scale_canvas w h =
     (if w = 0 then Inl ZeroDivisionError
      else if h = 0 then Inl ZeroDivisionError
      else
        let scale_to_target =
              min (real_of_int (fst TARGET_SIZE) / real_of_int w)
                  (real_of_int (snd TARGET_SIZE) / real_of_int h)
        in if scale_to_target < 1 then
             Inr (py_int (real_of_int w * scale_to_target),
                  py_int (real_of_int h * scale_to_target))
           else Inr (w, h))"

definition canvas_size :: "box \<Rightarrow> int \<times> int" where
  "canvas_size ext =
     (case ext of (min_x, min_y, max_x, max_y) \<Rightarrow> (py_int (max_x - min_x), py_int (max_y - min_y)))"

definition compose_final_image :: "pnode list \<Rightarrow> error + int \<times> int" where
  "compose_final_image nodes =
     (case enclosing_box nodes of
        None \<Rightarrow> Inl OverflowError
      | Some ext \<Rightarrow> (case canvas_size ext of (w, h) \<Rightarrow> scale_canvas w h))"

subsection \<open>The main program\<close>

datatype sort_type = NONE | AREA | WIDTH | HEIGHT | RANDOM

definition SORT_TYPE :: sort_type where
  "SORT_TYPE = RANDOM"

definition INPUT_DIRECTORY :: string where
  "INPUT_DIRECTORY = ''collage''"

definition OUTPUT_FILE :: string where
  "OUTPUT_FILE = ''collage-#.png''"

text \<open>
  What the program reads from and writes to its surroundings: the directory listing
  (\<open>None\<close> where \<open>os.listdir\<close> raises, as it does on a missing directory), the decoder, the
  random source of each trial, and whether a file can be written.
\<close>

record env =
  listdir :: "string \<Rightarrow> string list option"
  img_size :: "string \<Rightarrow> (nat \<times> nat) option"
  random_draw :: "nat \<Rightarrow> nat \<Rightarrow> nat"
  can_save :: "string \<Rightarrow> bool"

datatype outcome = Completed | Failed error

text \<open>File names are byte strings here; \<open>lower\<close> acts on the ASCII letters.\<close>

definition lower_char :: "char \<Rightarrow> char" where
  "lower_char c =
     (let k = (of_char c :: nat) in if 65 \<le> k \<and> k \<le> 90 then char_of (k + 32) else c)"

definition lower :: "string \<Rightarrow> string" where
  "lower s = map lower_char s"

definition endswith :: "string \<Rightarrow> string \<Rightarrow> bool" where
  "endswith s suf = (length suf \<le> length s \<and> drop (length s - length suf) s = suf)"

definition is_image_name :: "string \<Rightarrow> bool" where
  "is_image_name f =
     (endswith (lower f) ''.png'' \<or> endswith (lower f) ''.jpg'' \<or> endswith (lower f) ''.jpeg'')"

definition path_join :: "string \<Rightarrow> string \<Rightarrow> string" where
  "path_join folder f = folder @ ''/'' @ f"

definition sort_type_name :: "sort_type \<Rightarrow> string" where
  "sort_type_name t =
     (case t of NONE \<Rightarrow> ''NONE'' | AREA \<Rightarrow> ''AREA'' | WIDTH \<Rightarrow> ''WIDTH''
      | HEIGHT \<Rightarrow> ''HEIGHT'' | RANDOM \<Rightarrow> ''RANDOM'')"

definition digit_char :: "nat \<Rightarrow> char" where
  "digit_char d = char_of (48 + d)"

fun str_nat :: "nat \<Rightarrow> string" where
  "str_nat n = (if n < 10 then [digit_char n] else str_nat (n div 10) @ [digit_char (n mod 10)])"

definition replace_hash :: "string \<Rightarrow> string \<Rightarrow> string" where
  "replace_hash template rep = concat (map (\<lambda>c. if c = CHR ''#'' then rep else [c]) template)"

definition output_name :: "sort_type \<Rightarrow> nat \<Rightarrow> nat \<Rightarrow> string" where
  "output_name t count k =
     (if count > 1 then replace_hash OUTPUT_FILE (lower (sort_type_name t) @ str_nat (k + 1))
      else replace_hash OUTPUT_FILE (lower (sort_type_name t)))"

definition order_nodes :: "sort_type \<Rightarrow> (nat \<Rightarrow> nat) \<Rightarrow> node list \<Rightarrow> node list" where
  "order_nodes t rnd nodes =
     (case t of
        AREA \<Rightarrow> sort_by_area nodes
      | WIDTH \<Rightarrow> sort_by_width nodes
      | HEIGHT \<Rightarrow> sort_by_height nodes
      | RANDOM \<Rightarrow> random_sample rnd nodes
      | NONE \<Rightarrow> nodes)"

text \<open>The body of the trial loop up to the canvas that \<open>compose_final_image\<close> returns.\<close>

definition run_trial :: "sort_type \<Rightarrow> env \<Rightarrow> nat \<Rightarrow> string list \<Rightarrow> error + int \<times> int" where
  "run_trial t e k image_paths =
     (case load_images (img_size e) image_paths of
        Inl err \<Rightarrow> Inl err
      | Inr nodes \<Rightarrow>
     (case initial_rescale nodes of
        Inl err \<Rightarrow> Inl err
      | Inr nodes' \<Rightarrow>
     (case place_initial (order_nodes t (random_draw e k) nodes') of
        Inl err \<Rightarrow> Inl err
      | Inr placed \<Rightarrow> compose_final_image (run_relaxation placed))))"

text \<open>
  The trial loop over the remaining trial numbers; \<open>saved\<close> collects the names of the files
  written so far with the size of their canvas. The first exception ends the program.
\<close>

fun run_trials ::
  "sort_type \<Rightarrow> env \<Rightarrow> string list \<Rightarrow> nat \<Rightarrow> nat list \<Rightarrow> (string \<times> int \<times> int) list
     \<Rightarrow> (string \<times> int \<times> int) list \<times> outcome" where
  "run_trials t e image_paths count [] saved = (saved, Completed)"
| "run_trials t e image_paths count (k # ks) saved =
     (let output = output_name t count k
      in case run_trial t e k image_paths of
           Inl err \<Rightarrow> (saved, Failed err)
         | Inr canvas \<Rightarrow>
             if can_save e output
             then run_trials t e image_paths count ks (saved @ [(output, canvas)])
             else (saved, Failed IOError))"

text \<open>The number of trials: \<open>count = RANDOM_COUNT if SORT_TYPE == "RANDOM" else 1\<close>.\<close>

definition trial_count :: "sort_type \<Rightarrow> nat \<Rightarrow> nat" where
  "trial_count t random_count = (if t = RANDOM then random_count else 1)"

definition main_program ::
  "sort_type \<Rightarrow> nat \<Rightarrow> env \<Rightarrow> (string \<times> int \<times> int) list \<times> outcome" where
  "main_program t random_count e =
     (case listdir e INPUT_DIRECTORY of
        None \<Rightarrow> ([], Failed IOError)
      | Some names \<Rightarrow>
          let image_paths = map (path_join INPUT_DIRECTORY) (filter is_image_name names);
              count = trial_count t random_count
          in run_trials t e image_paths count [0..<count] [])"

subsection \<open>Relations between the states of a node\<close>

text \<open>
  A relation between the old and the new state of a node that is reflexive, transitive and
  holds across one shrink and across one move of a node that is not fixed holds pointwise
  across every operation of the relaxation phase.
\<close>

definition pointwise :: "(pnode \<Rightarrow> pnode \<Rightarrow> bool) \<Rightarrow> pnode list \<Rightarrow> pnode list \<Rightarrow> bool" where
  "pointwise R ms ms' = (length ms' = length ms \<and> (\<forall>i<length ms. R (ms ! i) (ms' ! i)))"

definition stable :: "(pnode \<Rightarrow> pnode \<Rightarrow> bool) \<Rightarrow> bool" where
  "stable R = ((\<forall>n. R n n) \<and> (\<forall>a b c. R a b \<longrightarrow> R b c \<longrightarrow> R a c) \<and>
     (\<forall>n. MAX_SCALE_DOWN \<le> scale n * SCALE_FACTOR \<longrightarrow> R n (shrink n (scale n * SCALE_FACTOR))) \<and>
     (\<forall>n dx dy. \<not> fixed n \<longrightarrow> R n (n\<lparr>x := x n + dx, y := y n + dy\<rparr>)))"

text \<open>The fields of a node that describe its size.\<close>

definition size_fields :: "'a node_scheme \<Rightarrow> int \<times> int \<times> int \<times> int \<times> real" where
  "size_fields n = (orig_width n, orig_height n, width n, height n, scale n)"

text \<open>The integer dimensions are the original ones times the scale, truncated.\<close>

definition dims_truncated :: "'a node_scheme \<Rightarrow> bool" where
  "dims_truncated n =
     (width n = py_int (real_of_int (orig_width n) * scale n) \<and>
      height n = py_int (real_of_int (orig_height n) * scale n))"

text \<open>The relations that the claims below use.\<close>

definition scale_shrinks :: "pnode \<Rightarrow> pnode \<Rightarrow> bool" where
  "scale_shrinks a b =
     (scale b \<le> scale a \<and> (scale b = scale a \<or> MAX_SCALE_DOWN \<le> scale b))"

definition keeps_place :: "pnode \<Rightarrow> pnode \<Rightarrow> bool" where
  "keeps_place a b = (fixed b = fixed a \<and> (fixed a \<longrightarrow> x b = x a \<and> y b = y a))"

definition keeps_dims :: "pnode \<Rightarrow> pnode \<Rightarrow> bool" where
  "keeps_dims a b = (size_fields b = size_fields a \<or> dims_truncated b)"

subsection \<open>The sweeps in the words of the specification\<close>

text \<open>The unordered pairs of indices below \<open>n\<close>, in the order in which the nested loops of
  \<open>attempt_rescale\<close> reach them.\<close>

definition unordered_pairs :: "nat \<Rightarrow> (nat \<times> nat) list" where
  "unordered_pairs n = concat (map (\<lambda>i. map (Pair i) [Suc i..<n]) [0..<n])"

text \<open>
  One pair of the Overlap Rescaler in the words of the specification: when the box of the
  first node, grown by the margin on every edge, meets the box of the second, the node with
  the smaller current \<open>width * height\<close> (the second node when neither is smaller) has its
  scale multiplied by \<open>SCALE_FACTOR\<close>, provided the result is at least \<open>MAX_SCALE_DOWN\<close>.
\<close>

definition expand_box :: "box \<Rightarrow> real \<Rightarrow> box" where
  "expand_box b m = (case b of (x1, y1, x2, y2) \<Rightarrow> (x1 - m, y1 - m, x2 + m, y2 + m))"

definition boxes_meet :: "box \<Rightarrow> box \<Rightarrow> bool" where
  "boxes_meet a b =
     (case a of (ax1, ay1, ax2, ay2) \<Rightarrow> case b of (bx1, by1, bx2, by2) \<Rightarrow>
        ax1 \<le> bx2 \<and> bx1 \<le> ax2 \<and> ay1 \<le> by2 \<and> by1 \<le> ay2)"

definition area :: "pnode \<Rightarrow> int" where
  "area n = width n * height n"

definition shrink_smaller_of_pair :: "bool \<times> pnode list \<Rightarrow> nat \<times> nat \<Rightarrow> bool \<times> pnode list" where
  "shrink_smaller_of_pair st p =
     (case st of (changed, nodes) \<Rightarrow> case p of (i, j) \<Rightarrow>
        if boxes_meet (expand_box (bounding_box (nodes ! i)) MARGIN_DISTANCE)
                      (bounding_box (nodes ! j))
        then
          let k = (if area (nodes ! i) < area (nodes ! j) then i else j);
              new_scale = scale (nodes ! k) * SCALE_FACTOR
          in if MAX_SCALE_DOWN \<le> new_scale
             then (True, nodes[k := shrink (nodes ! k) new_scale])
             else (changed, nodes)
        else (changed, nodes))"

text \<open>
  A sweep that would decide every pair on the sizes and positions as they were when the
  sweep started (\<open>snap\<close>), and only apply the shrinks to the current nodes.
\<close>

definition rescale_pair_snapshot ::
  "pnode list \<Rightarrow> bool \<times> pnode list \<Rightarrow> nat \<times> nat \<Rightarrow> bool \<times> pnode list" where
  "rescale_pair_snapshot snap st p =
     (case st of (changed, nodes) \<Rightarrow> case p of (i, j) \<Rightarrow>
        if boxes_overlap (bounding_box (snap ! i)) (bounding_box (snap ! j)) MARGIN_DISTANCE
        then
          let k = (if area (snap ! i) < area (snap ! j) then i else j);
              new_scale = scale (nodes ! k) * SCALE_FACTOR
          in if MAX_SCALE_DOWN \<le> new_scale
             then (True, nodes[k := shrink (nodes ! k) new_scale])
             else (changed, nodes)
        else (changed, nodes))"

definition attempt_rescale_snapshot :: "pnode list \<Rightarrow> bool \<times> pnode list" where
  "attempt_rescale_snapshot nodes =
     foldl (rescale_pair_snapshot nodes) (False, nodes) (unordered_pairs (length nodes))"

text \<open>
  The Force Field Solver as a deferred-write sweep: every node's force is computed from the
  positions at the start of the sweep, and all the positions are written afterwards.
\<close>

definition apply_forces_snapshot :: "pnode list \<Rightarrow> pnode list" where
  "apply_forces_snapshot nodes = map (\<lambda>i. move_node i nodes) [0..<length nodes]"






subsection \<open>Example inputs\<close>

text \<open>A decoder that knows three files, and what the downscaler makes of two of them.\<close>

definition example_decoder :: "string \<Rightarrow> (nat \<times> nat) option" where
  "example_decoder = map_of [(''a.png'', (1024, 768)), (''b.jpg'', (300, 200)), (''c.png'', (1000, 900))]"

definition tall_scaled :: node where
  "tall_scaled = \<lparr>orig_width = 1000, orig_height = 900, width = 512, height = 460,
     scale = 64 / 125, fixed = False\<rparr>"

definition half_scaled :: node where
  "half_scaled = \<lparr>orig_width = 1024, orig_height = 768, width = 512, height = 384,
     scale = 1 / 2, fixed = False\<rparr>"

definition anchor_half :: pnode where
  "anchor_half = \<lparr>orig_width = 1024, orig_height = 768, width = 512, height = 384,
     scale = 1 / 2, fixed = True, x = 2048, y = 2048\<rparr>"

text \<open>A large fixed node and a small node inside it, before and after one shrink, and at a
  scale whose next shrink would fall below the floor.\<close>

definition pair_big :: pnode where
  "pair_big = \<lparr>orig_width = 400, orig_height = 400, width = 400, height = 400,
     scale = 1, fixed = True, x = 2048, y = 2048\<rparr>"

definition pair_small :: pnode where
  "pair_small = \<lparr>orig_width = 200, orig_height = 100, width = 200, height = 100,
     scale = 1, fixed = False, x = 2100, y = 2048\<rparr>"

definition pair_small_shrunk :: pnode where
  "pair_small_shrunk = \<lparr>orig_width = 200, orig_height = 100, width = 190, height = 95,
     scale = 95 / 100, fixed = False, x = 2100, y = 2048\<rparr>"

definition pair_small_floor :: pnode where
  "pair_small_floor = \<lparr>orig_width = 200, orig_height = 100, width = 156, height = 78,
     scale = 78 / 100, fixed = False, x = 2100, y = 2048\<rparr>"

text \<open>Three equal nodes in a row, each within the margin of the next.\<close>

definition row_a :: pnode where
  "row_a = \<lparr>orig_width = 100, orig_height = 100, width = 100, height = 100,
     scale = 1, fixed = True, x = 0, y = 0\<rparr>"

definition row_b :: pnode where
  "row_b = \<lparr>orig_width = 100, orig_height = 100, width = 100, height = 100,
     scale = 1, fixed = False, x = 100, y = 0\<rparr>"

definition row_c :: pnode where
  "row_c = \<lparr>orig_width = 100, orig_height = 100, width = 100, height = 100,
     scale = 1, fixed = False, x = 207, y = 0\<rparr>"

definition row_b_shrunk :: pnode where
  "row_b_shrunk = \<lparr>orig_width = 100, orig_height = 100, width = 95, height = 95,
     scale = 95 / 100, fixed = False, x = 100, y = 0\<rparr>"

definition row_c_shrunk :: pnode where
  "row_c_shrunk = \<lparr>orig_width = 100, orig_height = 100, width = 95, height = 95,
     scale = 95 / 100, fixed = False, x = 207, y = 0\<rparr>"

text \<open>An anchor at the centre and two small nodes on its horizontal line, far to the left.\<close>

definition line_anchor :: pnode where
  "line_anchor = \<lparr>orig_width = 10, orig_height = 10, width = 10, height = 10,
     scale = 1, fixed = True, x = 2048, y = 2048\<rparr>"

definition line_left :: pnode where
  "line_left = \<lparr>orig_width = 10, orig_height = 10, width = 10, height = 10,
     scale = 1, fixed = False, x = 100, y = 2048\<rparr>"

definition line_right :: pnode where
  "line_right = \<lparr>orig_width = 10, orig_height = 10, width = 10, height = 10,
     scale = 1, fixed = False, x = 118, y = 2048\<rparr>"

definition line_left_moved :: pnode where
  "line_left_moved = \<lparr>orig_width = 10, orig_height = 10, width = 10, height = 10,
     scale = 1, fixed = False, x = 41820466203 / 463360000, y = 2048\<rparr>"



text \<open>The surroundings of a run on an empty and on a missing input directory.\<close>

definition no_images :: "string \<Rightarrow> (nat \<times> nat) option" where
  "no_images = map_of []"

definition first_draw :: "nat \<Rightarrow> nat \<Rightarrow> nat" where
  "first_draw trial k = 0"

definition always :: "string \<Rightarrow> bool" where
  "always name = True"

definition empty_listing :: "string \<Rightarrow> string list option" where
  "empty_listing dir = Some []"

definition missing_listing :: "string \<Rightarrow> string list option" where
  "missing_listing dir = None"

definition empty_dir_env :: env where
  "empty_dir_env = \<lparr>listdir = empty_listing, img_size = no_images,
     random_draw = first_draw, can_save = always\<rparr>"

definition missing_dir_env :: env where
  "missing_dir_env = \<lparr>listdir = missing_listing, img_size = no_images,
     random_draw = first_draw, can_save = always\<rparr>"

text \<open>
  A wide fixed node, a node at its right edge and a slightly smaller third node within
  the margin of the second only; the second node after one and two shrinks, the third
  after one.
\<close>

definition sel_a :: pnode where
  "sel_a = \<lparr>orig_width = 200, orig_height = 200, width = 200, height = 200,
     scale = 1, fixed = True, x = 0, y = 0\<rparr>"

definition sel_b :: pnode where
  "sel_b = \<lparr>orig_width = 100, orig_height = 100, width = 100, height = 100,
     scale = 1, fixed = False, x = 150, y = 0\<rparr>"

definition sel_c :: pnode where
  "sel_c = \<lparr>orig_width = 98, orig_height = 98, width = 98, height = 98,
     scale = 1, fixed = False, x = 250, y = 0\<rparr>"

definition sel_b_once :: pnode where
  "sel_b_once = \<lparr>orig_width = 100, orig_height = 100, width = 95, height = 95,
     scale = 95 / 100, fixed = False, x = 150, y = 0\<rparr>"

definition sel_b_twice :: pnode where
  "sel_b_twice = \<lparr>orig_width = 100, orig_height = 100, width = 90, height = 90,
     scale = 361 / 400, fixed = False, x = 150, y = 0\<rparr>"

definition sel_c_shrunk :: pnode where
  "sel_c_shrunk = \<lparr>orig_width = 98, orig_height = 98, width = 93, height = 93,
     scale = 95 / 100, fixed = False, x = 250, y = 0\<rparr>"







section \<open>Properties\<close>

subsection \<open>Truncation, loading and the downscaler\<close>

lemma py_int_nonneg: "0 \<le> r \<Longrightarrow> py_int r = \<lfloor>r\<rfloor>"
  by (simp add: py_int_def)

lemma py_int_of_int: "py_int (real_of_int k) = k"
  by (simp add: py_int_def)

lemma load_images_nth:
  "load_images img_open paths = Inr nodes \<Longrightarrow>
     length nodes = length paths \<and>
     (\<forall>i<length paths. \<exists>sz. img_open (paths ! i) = Some sz \<and> nodes ! i = new_node sz)"
proof (induction paths arbitrary: nodes)
  case Nil
  then show ?case by simp
next
  case (Cons p ps)
  from Cons.prems obtain sz rest where
    sz: "img_open p = Some sz" and rest: "load_images img_open ps = Inr rest" and
    nodes: "nodes = new_node sz # rest"
    by (auto split: option.splits sum.splits)
  from Cons.IH [OF rest] show ?case
    using sz nodes by (cases sz) (auto simp: nth_Cons split: nat.splits)
qed

lemma initial_rescale_nth:
  "initial_rescale ns = Inr ns' \<Longrightarrow>
     length ns' = length ns \<and> (\<forall>i<length ns. initial_rescale_node (ns ! i) = Inr (ns' ! i))"
proof (induction ns arbitrary: ns')
  case Nil
  then show ?case by simp
next
  case (Cons n ns)
  from Cons.prems obtain n' rest where
    n': "initial_rescale_node n = Inr n'" and rest: "initial_rescale ns = Inr rest" and
    ns': "ns' = n' # rest"
    by (auto split: sum.splits)
  from Cons.IH [OF rest] show ?case
    using n' ns' by (auto simp: nth_Cons split: nat.splits)
qed

lemma initial_rescale_total:
  "(\<forall>n\<in>set ns. \<exists>n'. initial_rescale_node n = Inr n') \<Longrightarrow> \<exists>ns'. initial_rescale ns = Inr ns'"
  by (induction ns) auto

lemma initial_rescale_node_total:
  "0 < width n \<Longrightarrow> 0 < height n \<Longrightarrow> \<exists>n'. initial_rescale_node n = Inr n'"
  by (simp add: initial_rescale_node_def Let_def)

lemma cap_bound:
  fixes a b :: int
  assumes "0 < a" "0 < b" "0 < c"
  shows "py_int (real_of_int a * min (real_of_int c / real_of_int a) (real_of_int c / real_of_int b)) \<le> c"
proof -
  let ?s = "min (real_of_int c / real_of_int a) (real_of_int c / real_of_int b)"
  have s0: "0 \<le> ?s" using assms by simp
  have "real_of_int a * ?s \<le> real_of_int a * (real_of_int c / real_of_int a)"
    using assms by (intro mult_left_mono) auto
  also have "\<dots> = real_of_int c" using assms by simp
  finally have "\<lfloor>real_of_int a * ?s\<rfloor> \<le> c" by (simp add: floor_le_iff) 
  moreover have "0 \<le> real_of_int a * ?s" using assms s0 by (intro mult_nonneg_nonneg) auto
  ultimately show ?thesis by (simp add: py_int_nonneg)
qed

lemma shrink_bound:
  fixes a :: int
  assumes "0 \<le> a" "0 \<le> s" "s \<le> 1"
  shows "py_int (real_of_int a * s) \<le> a" "0 \<le> py_int (real_of_int a * s)"
proof -
  have "real_of_int a * s \<le> real_of_int a * 1" using assms by (intro mult_left_mono) auto
  then have "\<lfloor>real_of_int a * s\<rfloor> \<le> a" by (simp add: floor_le_iff)
  moreover have nn: "0 \<le> real_of_int a * s" using assms by simp
  ultimately show "py_int (real_of_int a * s) \<le> a" by (simp add: py_int_nonneg)
  show "0 \<le> py_int (real_of_int a * s)" using nn by (simp add: py_int_nonneg)
qed

lemma initial_rescale_new_node_small:
  "int w \<le> MAX_INITIAL_DIM \<Longrightarrow> int h \<le> MAX_INITIAL_DIM \<Longrightarrow>
     initial_rescale_node (new_node (w, h)) = Inr (new_node (w, h))"
  by (simp add: initial_rescale_node_def new_node_def)

lemma initial_rescale_new_node_large:
  assumes "int w > MAX_INITIAL_DIM \<or> int h > MAX_INITIAL_DIM" and "0 < w" and "0 < h"
  shows "initial_rescale_node (new_node (w, h)) =
     Inr ((new_node (w, h))
       \<lparr>scale := min (real_of_int MAX_INITIAL_DIM / real w) (real_of_int MAX_INITIAL_DIM / real h),
        width := py_int (real w * min (real_of_int MAX_INITIAL_DIM / real w) (real_of_int MAX_INITIAL_DIM / real h)),
        height := py_int (real h * min (real_of_int MAX_INITIAL_DIM / real w) (real_of_int MAX_INITIAL_DIM / real h))\<rparr>)"
  using assms by (auto simp add: initial_rescale_node_def new_node_def Let_def)

lemma cap_scale_less_1:
  assumes "int w > MAX_INITIAL_DIM \<or> int h > MAX_INITIAL_DIM" and "0 < w" and "0 < h"
  shows "min (real_of_int MAX_INITIAL_DIM / real w) (real_of_int MAX_INITIAL_DIM / real h) < 1"
    and "0 < min (real_of_int MAX_INITIAL_DIM / real w) (real_of_int MAX_INITIAL_DIM / real h)"
proof -
  have "real_of_int MAX_INITIAL_DIM / real w < 1 \<or> real_of_int MAX_INITIAL_DIM / real h < 1"
    using assms by (auto simp: MAX_INITIAL_DIM_def)
  then show "min (real_of_int MAX_INITIAL_DIM / real w) (real_of_int MAX_INITIAL_DIM / real h) < 1"
    by (simp add: min_less_iff_disj)
  show "0 < min (real_of_int MAX_INITIAL_DIM / real w) (real_of_int MAX_INITIAL_DIM / real h)"
    using assms by (simp add: MAX_INITIAL_DIM_def)
qed

text \<open>
  Claim C3. Let every decoded image have a positive width and height. Then the Initial
  Downscaler, run on the freshly loaded nodes, returns; a node whose original width or
  height exceeds \<open>MAX_INITIAL_DIM\<close> gets \<open>scale = min (MAX_INITIAL_DIM / width)
  (MAX_INITIAL_DIM / height)\<close>, applied to both original dimensions, and ends with width
  and height at most \<open>MAX_INITIAL_DIM\<close>; a node within the cap is left as loaded, with
  scale 1; no node ends wider or taller than its original.
\<close>

theorem initial_rescale_caps:
  assumes "load_images img_open paths = Inr loaded"
    and "\<forall>p\<in>set paths. \<forall>w h. img_open p = Some (w, h) \<longrightarrow> 0 < w \<and> 0 < h"
  shows "\<exists>nodes. initial_rescale loaded = Inr nodes \<and> length nodes = length paths \<and>
    (\<forall>i<length paths. \<exists>w h. img_open (paths ! i) = Some (w, h) \<and>
       orig_width (nodes ! i) = int w \<and> orig_height (nodes ! i) = int h \<and>
       (if int w > MAX_INITIAL_DIM \<or> int h > MAX_INITIAL_DIM
        then scale (nodes ! i) =
               min (real_of_int MAX_INITIAL_DIM / real w) (real_of_int MAX_INITIAL_DIM / real h) \<and>
             width (nodes ! i) = py_int (real w * scale (nodes ! i)) \<and>
             height (nodes ! i) = py_int (real h * scale (nodes ! i)) \<and>
             width (nodes ! i) \<le> MAX_INITIAL_DIM \<and> height (nodes ! i) \<le> MAX_INITIAL_DIM
        else nodes ! i = loaded ! i \<and> scale (nodes ! i) = 1 \<and>
             width (nodes ! i) = int w \<and> height (nodes ! i) = int h) \<and>
       width (nodes ! i) \<le> int w \<and> height (nodes ! i) \<le> int h \<and> scale (nodes ! i) \<le> 1)"
proof -
  from load_images_nth [OF assms(1)] have len: "length loaded = length paths"
    and nth: "\<And>i. i < length paths \<Longrightarrow> \<exists>sz. img_open (paths ! i) = Some sz \<and> loaded ! i = new_node sz"
    by auto
  have pos: "0 < width n \<and> 0 < height n" if "n \<in> set loaded" for n
  proof -
    from that obtain i where i: "i < length loaded" and n: "n = loaded ! i"
      by (auto simp: in_set_conv_nth)
    from nth [of i] i len obtain w h where "img_open (paths ! i) = Some (w, h)" "n = new_node (w, h)"
      using n by auto
    moreover from this assms(2) i len have "0 < w \<and> 0 < h" by (metis nth_mem)
    ultimately show ?thesis by (simp add: new_node_def)
  qed
  then have "\<forall>n\<in>set loaded. \<exists>n'. initial_rescale_node n = Inr n'"
    using initial_rescale_node_total by blast
  then obtain nodes where nodes: "initial_rescale loaded = Inr nodes"
    using initial_rescale_total by blast
  from initial_rescale_nth [OF nodes] have len': "length nodes = length loaded"
    and step: "\<And>i. i < length loaded \<Longrightarrow> initial_rescale_node (loaded ! i) = Inr (nodes ! i)"
    by auto
  have "\<exists>w h. img_open (paths ! i) = Some (w, h) \<and>
       orig_width (nodes ! i) = int w \<and> orig_height (nodes ! i) = int h \<and>
       (if int w > MAX_INITIAL_DIM \<or> int h > MAX_INITIAL_DIM
        then scale (nodes ! i) =
               min (real_of_int MAX_INITIAL_DIM / real w) (real_of_int MAX_INITIAL_DIM / real h) \<and>
             width (nodes ! i) = py_int (real w * scale (nodes ! i)) \<and>
             height (nodes ! i) = py_int (real h * scale (nodes ! i)) \<and>
             width (nodes ! i) \<le> MAX_INITIAL_DIM \<and> height (nodes ! i) \<le> MAX_INITIAL_DIM
        else nodes ! i = loaded ! i \<and> scale (nodes ! i) = 1 \<and>
             width (nodes ! i) = int w \<and> height (nodes ! i) = int h) \<and>
       width (nodes ! i) \<le> int w \<and> height (nodes ! i) \<le> int h \<and> scale (nodes ! i) \<le> 1"
    if i: "i < length paths" for i
  proof -
    from nth [OF i] obtain w h where
      sz: "img_open (paths ! i) = Some (w, h)" and ld: "loaded ! i = new_node (w, h)"
      by auto
    from sz assms(2) i have wh: "0 < w" "0 < h" by (metis nth_mem)+
    from step [of i] i len ld have res: "initial_rescale_node (new_node (w, h)) = Inr (nodes ! i)"
      by simp
    show ?thesis
    proof (cases "int w > MAX_INITIAL_DIM \<or> int h > MAX_INITIAL_DIM")
      case True
      let ?s = "min (real_of_int MAX_INITIAL_DIM / real w) (real_of_int MAX_INITIAL_DIM / real h)"
      from initial_rescale_new_node_large [OF True wh] res
      have eq: "nodes ! i = (new_node (w, h))\<lparr>scale := ?s, width := py_int (real w * ?s),
                  height := py_int (real h * ?s)\<rparr>"
        by simp
      from cap_scale_less_1 [OF True wh] have s: "?s < 1" "0 < ?s" by auto
      have capw: "py_int (real w * ?s) \<le> MAX_INITIAL_DIM"
        using cap_bound [of "int w" "int h" MAX_INITIAL_DIM] wh
        by (simp add: MAX_INITIAL_DIM_def)
      have "py_int (real h * min (real_of_int MAX_INITIAL_DIM / real h) (real_of_int MAX_INITIAL_DIM / real w))
                \<le> MAX_INITIAL_DIM"
        using cap_bound [of "int h" "int w" MAX_INITIAL_DIM] wh
        by (simp add: MAX_INITIAL_DIM_def)
      then have caph: "py_int (real h * ?s) \<le> MAX_INITIAL_DIM"
        by (simp add: min.commute)
      have lew: "py_int (real w * ?s) \<le> int w" and leh: "py_int (real h * ?s) \<le> int h"
        using shrink_bound(1) [of "int w" ?s] shrink_bound(1) [of "int h" ?s] s by auto
      show ?thesis
        using sz True s capw caph lew leh unfolding eq by (simp add: new_node_def)
    next
      case False
      with initial_rescale_new_node_small [of w h] res have "nodes ! i = new_node (w, h)"
        by simp
      with sz ld False show ?thesis by (simp add: new_node_def)
    qed
  qed
  with nodes len len' show ?thesis by auto
qed

theorem initial_rescale_caps_witness:
  "load_images example_decoder [''a.png'', ''b.jpg''] = Inr [new_node (1024, 768), new_node (300, 200)] \<and>
   (\<exists>nodes. initial_rescale [new_node (1024, 768), new_node (300, 200)] = Inr nodes \<and>
      length nodes = 2 \<and> scale (nodes ! 0) = 1 / 2 \<and> width (nodes ! 0) = 512 \<and>
      height (nodes ! 0) = 384 \<and> nodes ! 1 = new_node (300, 200))"
proof -
  have ld: "load_images example_decoder [''a.png'', ''b.jpg''] = Inr [new_node (1024, 768), new_node (300, 200)]"
    by (simp add: example_decoder_def)
  have pos: "\<forall>p\<in>set [''a.png'', ''b.jpg'']. \<forall>w h. example_decoder p = Some (w, h) \<longrightarrow> 0 < w \<and> 0 < h"
    by (simp add: example_decoder_def)
  from initial_rescale_caps [OF ld pos] obtain nodes where
    nodes: "initial_rescale [new_node (1024, 768), new_node (300, 200)] = Inr nodes"
      "length nodes = 2" and
    all: "\<forall>i<2. \<exists>w h. example_decoder ([''a.png'', ''b.jpg''] ! i) = Some (w, h) \<and>
       orig_width (nodes ! i) = int w \<and> orig_height (nodes ! i) = int h \<and>
       (if int w > MAX_INITIAL_DIM \<or> int h > MAX_INITIAL_DIM
        then scale (nodes ! i) =
               min (real_of_int MAX_INITIAL_DIM / real w) (real_of_int MAX_INITIAL_DIM / real h) \<and>
             width (nodes ! i) = py_int (real w * scale (nodes ! i)) \<and>
             height (nodes ! i) = py_int (real h * scale (nodes ! i)) \<and>
             width (nodes ! i) \<le> MAX_INITIAL_DIM \<and> height (nodes ! i) \<le> MAX_INITIAL_DIM
        else nodes ! i = [new_node (1024, 768), new_node (300, 200)] ! i \<and> scale (nodes ! i) = 1 \<and>
             width (nodes ! i) = int w \<and> height (nodes ! i) = int h) \<and>
       width (nodes ! i) \<le> int w \<and> height (nodes ! i) \<le> int h \<and> scale (nodes ! i) \<le> 1"
    by auto
  from all [rule_format, of 0] have
    sc: "scale (nodes ! 0) = min (512 / 1024) (512 / 768)" and
    w: "width (nodes ! 0) = py_int (1024 * scale (nodes ! 0))" and
    h: "height (nodes ! 0) = py_int (768 * scale (nodes ! 0))"
    by (simp_all add: example_decoder_def MAX_INITIAL_DIM_def)
  have "scale (nodes ! 0) = 1 / 2 \<and> width (nodes ! 0) = 512 \<and> height (nodes ! 0) = 384"
    unfolding w h unfolding sc by (simp add: py_int_def)
  moreover from all [rule_format, of 1] have "nodes ! 1 = new_node (300, 200)"
    by (simp add: example_decoder_def MAX_INITIAL_DIM_def)
  ultimately show ?thesis using ld nodes by blast
qed

subsection \<open>Invariants of the sweeps and of the relaxation loop\<close>

lemma foldl_invariant:
  assumes "P s" and "\<And>s a. a \<in> set xs \<Longrightarrow> P s \<Longrightarrow> P (f s a)"
  shows "P (foldl f s xs)"
  using assms by (induction xs arbitrary: s) auto

lemma rescale_pair_cases:
  assumes "i < j" and "j < length ms"
  obtains (same) "rescale_pair i j (c, ms) = (c, ms)"
  | (shrunk) k where "k < length ms" and "k = i \<or> k = j" and
      "MAX_SCALE_DOWN \<le> scale (ms ! k) * SCALE_FACTOR" and
      "rescale_pair i j (c, ms) = (True, ms[k := shrink (ms ! k) (scale (ms ! k) * SCALE_FACTOR)])"
proof (cases "rescale_pair i j (c, ms) = (c, ms)")
  case True
  then show ?thesis by (rule same)
next
  case False
  define k where "k = (if width (ms ! i) * height (ms ! i) < width (ms ! j) * height (ms ! j) then i else j)"
  have k: "k < length ms" "k = i \<or> k = j" using assms by (auto simp: k_def)
  from False assms have "MAX_SCALE_DOWN \<le> scale (ms ! k) * SCALE_FACTOR \<and>
      rescale_pair i j (c, ms) = (True, ms[k := shrink (ms ! k) (scale (ms ! k) * SCALE_FACTOR)])"
    unfolding k_def by (auto simp: rescale_pair_def Let_def split: if_splits)
  with k show ?thesis using shrunk by blast
qed

lemma rescale_pair_skip: "j \<le> i \<Longrightarrow> rescale_pair i j st = st"
  by (cases st) (simp add: rescale_pair_def)

lemma attempt_rescale_induct [consumes 0, case_names init step]:
  assumes init: "P (False, nodes)"
    and step: "\<And>i j c ms. i < j \<Longrightarrow> j < length nodes \<Longrightarrow> length ms = length nodes \<Longrightarrow>
                 P (c, ms) \<Longrightarrow> P (rescale_pair i j (c, ms))"
  shows "P (attempt_rescale nodes) \<and> length (snd (attempt_rescale nodes)) = length nodes"
proof -
  let ?Q = "\<lambda>st. P st \<and> length (snd st) = length nodes"
  have pair: "?Q (rescale_pair i j st)" if "?Q st" "j < length nodes" for i j st
  proof (cases "i < j")
    case True
    obtain c ms where st: "st = (c, ms)" by (cases st)
    with that have len: "length ms = length nodes" and P: "P (c, ms)" by auto
    have "P (rescale_pair i j (c, ms))" using step [OF True that(2) len P] .
    moreover have "length (snd (rescale_pair i j (c, ms))) = length nodes"
    proof -
      from that(2) len have j: "j < length ms" by simp
      show ?thesis by (rule rescale_pair_cases [OF True j, of c]) (auto simp: len)
    qed
    ultimately show ?thesis by (simp add: st)
  next
    case False
    then show ?thesis using that by (simp add: rescale_pair_skip)
  qed
  have inner: "?Q (foldl (\<lambda>st' j. rescale_pair i j st') st [0..<length nodes])" if "?Q st" for i st
    by (rule foldl_invariant [where P = ?Q]) (use that pair in auto)
  have "?Q (foldl (\<lambda>st i. foldl (\<lambda>st' j. rescale_pair i j st') st [0..<length nodes])
              (False, nodes) [0..<length nodes])"
    by (rule foldl_invariant [where P = ?Q]) (use init inner in auto)
  then show ?thesis by (simp add: attempt_rescale_def)
qed

lemma apply_forces_induct:
  assumes init: "P nodes"
    and step: "\<And>i ms. i < length nodes \<Longrightarrow> length ms = length nodes \<Longrightarrow> P ms \<Longrightarrow>
                 P (ms[i := move_node i ms])"
  shows "P (apply_forces nodes) \<and> length (apply_forces nodes) = length nodes"
proof -
  let ?Q = "\<lambda>ms. P ms \<and> length ms = length nodes"
  have "?Q (foldl (\<lambda>ns i. ns[i := move_node i ns]) nodes [0..<length nodes])"
    by (rule foldl_invariant [where P = ?Q]) (use init step in auto)
  then show ?thesis by (simp add: apply_forces_def)
qed

lemma rescale_attempts_induct:
  assumes "P nodes" and "\<And>ms. P ms \<Longrightarrow> P (snd (attempt_rescale ms))"
  shows "P (rescale_attempts k nodes)"
  using assms(1)
proof (induction k arbitrary: nodes)
  case 0
  then show ?case by simp
next
  case (Suc k)
  from assms(2) [OF Suc.prems] have "P (snd (attempt_rescale nodes))" .
  with Suc.IH show ?case by (auto split: prod.splits)
qed

lemma relaxation_step_induct:
  assumes "P nodes" and "\<And>ms. P ms \<Longrightarrow> P (apply_forces ms)"
    and "\<And>ms. P ms \<Longrightarrow> P (snd (attempt_rescale ms))"
  shows "P (relaxation_step it nodes)"
  unfolding relaxation_step_def Let_def
  using assms rescale_attempts_induct [of P "apply_forces nodes"] by auto

lemma relax_Suc: "relax (Suc k) nodes = relaxation_step k (relax k nodes)"
  by (simp add: relax_def)

lemma relax_0: "relax 0 nodes = nodes"
  by (simp add: relax_def)

lemma relax_add: "relax (k + m) nodes = foldl (\<lambda>ns iteration. relaxation_step iteration ns) (relax k nodes) [k..<k + m]"
  by (induction m) (simp_all add: relax_def)

lemma pointwise_refl: "stable R \<Longrightarrow> pointwise R ms ms"
  by (simp add: pointwise_def stable_def)

lemma pointwise_trans:
  "stable R \<Longrightarrow> pointwise R ms ms' \<Longrightarrow> pointwise R ms' ms'' \<Longrightarrow> pointwise R ms ms''"
  unfolding pointwise_def stable_def by (metis (no_types, lifting))

lemma pointwise_update:
  assumes "stable R" and "pointwise R ms ms'" and "k < length ms'" and "R (ms' ! k) n"
  shows "pointwise R ms (ms'[k := n])"
proof -
  have tr: "\<And>a b c. R a b \<Longrightarrow> R b c \<Longrightarrow> R a c" using assms(1) unfolding stable_def by blast
  show ?thesis
    unfolding pointwise_def
  proof (intro conjI allI impI)
    show "length (ms'[k := n]) = length ms" using assms(2) by (simp add: pointwise_def)
  next
    fix i assume i: "i < length ms"
    with assms(2) have Ri: "R (ms ! i) (ms' ! i)" and len: "length ms' = length ms"
      by (auto simp: pointwise_def)
    show "R (ms ! i) (ms'[k := n] ! i)"
    proof (cases "i = k")
      case True
      with Ri assms(3,4) tr show ?thesis by auto
    next
      case False
      with Ri show ?thesis by simp
    qed
  qed
qed

lemma pointwise_attempt_rescale:
  assumes "stable R"
  shows "pointwise R nodes (snd (attempt_rescale nodes))"
proof -
  have "pointwise R nodes (snd (attempt_rescale nodes)) \<and>
        length (snd (attempt_rescale nodes)) = length nodes"
  proof (rule attempt_rescale_induct [where P = "\<lambda>st. pointwise R nodes (snd st)"])
    show "pointwise R nodes (snd (False, nodes))" using assms by (simp add: pointwise_refl)
  next
    fix i j :: nat and c :: bool and ms :: "pnode list"
    assume ij: "i < j" and j: "j < length nodes" and len: "length ms = length nodes"
      and P: "pointwise R nodes (snd (c, ms))"
    from j len have j': "j < length ms" by simp
    show "pointwise R nodes (snd (rescale_pair i j (c, ms)))"
    proof (rule rescale_pair_cases [OF ij j', of c])
      assume "rescale_pair i j (c, ms) = (c, ms)"
      with P show ?thesis by simp
    next
      fix k
      assume k: "k < length ms" and ok: "MAX_SCALE_DOWN \<le> scale (ms ! k) * SCALE_FACTOR"
        and eq: "rescale_pair i j (c, ms) = (True, ms[k := shrink (ms ! k) (scale (ms ! k) * SCALE_FACTOR)])"
      from assms ok have "R (ms ! k) (shrink (ms ! k) (scale (ms ! k) * SCALE_FACTOR))"
        unfolding stable_def by blast
      with pointwise_update [OF assms _ k] P show ?thesis by (simp add: eq)
    qed
  qed
  then show ?thesis by simp
qed

lemma pointwise_apply_forces:
  assumes "stable R"
  shows "pointwise R nodes (apply_forces nodes)"
proof -
  have "pointwise R nodes (apply_forces nodes) \<and> length (apply_forces nodes) = length nodes"
  proof (rule apply_forces_induct [where P = "pointwise R nodes"])
    show "pointwise R nodes nodes" using assms by (rule pointwise_refl)
  next
    fix i ms
    assume i: "i < length nodes" and len: "length ms = length nodes" and P: "pointwise R nodes ms"
    have "R (ms ! i) (move_node i ms)"
      using assms unfolding stable_def move_node_def Let_def
      by (auto split: prod.splits)
    with pointwise_update [OF assms P] i len show "pointwise R nodes (ms[i := move_node i ms])"
      by simp
  qed
  then show ?thesis by simp
qed

lemma pointwise_rescale_attempts:
  assumes "stable R"
  shows "pointwise R nodes (rescale_attempts k nodes)"
proof (rule rescale_attempts_induct [where P = "pointwise R nodes"])
  show "pointwise R nodes nodes" using assms by (rule pointwise_refl)
next
  fix ms assume "pointwise R nodes ms"
  then show "pointwise R nodes (snd (attempt_rescale ms))"
    using pointwise_trans [OF assms] pointwise_attempt_rescale [OF assms] by blast
qed

lemma pointwise_relaxation_step:
  assumes "stable R"
  shows "pointwise R nodes (relaxation_step it nodes)"
  unfolding relaxation_step_def Let_def
  using pointwise_trans [OF assms pointwise_apply_forces [OF assms]
          pointwise_rescale_attempts [OF assms], of nodes]
        pointwise_apply_forces [OF assms, of nodes]
  by simp

lemma pointwise_relax_le:
  assumes "stable R" and "k \<le> k'"
  shows "pointwise R (relax k nodes) (relax k' nodes)"
proof -
  from assms(2) obtain m where k': "k' = k + m" using le_Suc_ex by blast
  have "pointwise R (relax k nodes) (relax (k + m) nodes)"
  proof (induction m)
    case 0
    show ?case using assms(1) by (simp add: pointwise_refl)
  next
    case (Suc m)
    have "pointwise R (relax (k + m) nodes) (relax (Suc (k + m)) nodes)"
      unfolding relax_Suc using assms(1) by (rule pointwise_relaxation_step)
    with Suc pointwise_trans [OF assms(1)] show ?case by (metis add_Suc_right)
  qed
  then show ?thesis by (simp add: k')
qed

lemma pointwise_relax: "stable R \<Longrightarrow> pointwise R nodes (relax k nodes)"
  using pointwise_relax_le [of R 0 k nodes] by (simp add: relax_0)

subsection \<open>Placement, ordering and stable relations\<close>

lemma place_initial_nth:
  assumes "place_initial nodes = Inr placed"
  shows "nodes \<noteq> [] \<and> length placed = length nodes \<and>
     placed ! 0 = place ((nodes ! 0)\<lparr>fixed := True\<rparr>)
                    (real_of_int (fst CENTER)) (real_of_int (snd CENTER)) \<and>
     (\<forall>i. 0 < i \<and> i < length nodes \<longrightarrow>
        placed ! i = place_on_circle (angle_step (length nodes)) (i, nodes ! i))"
proof (cases nodes)
  case Nil
  with assms show ?thesis by simp
next
  case (Cons n0 rest)
  with assms have placed: "placed =
     place (n0\<lparr>fixed := True\<rparr>) (real_of_int (fst CENTER)) (real_of_int (snd CENTER))
       # map (place_on_circle (angle_step (length nodes))) (enumerate 1 rest)"
    by (simp add: Let_def)
  have others: "placed ! i = place_on_circle (angle_step (length nodes)) (i, nodes ! i)"
    if "0 < i" "i < length nodes" for i
  proof -
    from that obtain m where m: "i = Suc m" "m < length rest"
      using Cons by (cases i) auto
    then show ?thesis by (simp add: placed Cons nth_enumerate_eq)
  qed
  have "nodes \<noteq> []" "length placed = length nodes"
    "placed ! 0 = place ((nodes ! 0)\<lparr>fixed := True\<rparr>)
                    (real_of_int (fst CENTER)) (real_of_int (snd CENTER))"
    by (simp_all add: placed Cons)
  with others show ?thesis by blast
qed

lemma place_node_fields [simp]:
  "orig_width (place n px py) = orig_width n" "orig_height (place n px py) = orig_height n"
  "width (place n px py) = width n" "height (place n px py) = height n"
  "scale (place n px py) = scale n" "fixed (place n px py) = fixed n"
  "x (place n px py) = px" "y (place n px py) = py"
  by (simp_all add: place_def)

lemma place_initial_size_fields:
  assumes "place_initial nodes = Inr placed" and "i < length nodes"
  shows "size_fields (placed ! i) = size_fields (nodes ! i)"
proof (cases "i = 0")
  case True
  with place_initial_nth [OF assms(1)] show ?thesis by (simp add: size_fields_def)
next
  case False
  with place_initial_nth [OF assms(1)] assms(2)
  have "placed ! i = place_on_circle (angle_step (length nodes)) (i, nodes ! i)" by simp
  then show ?thesis by (simp add: size_fields_def place_on_circle_def Let_def)
qed

lemma set_sample_from: "set (sample_from rnd k pool) \<subseteq> set pool"
proof (induction k arbitrary: pool)
  case 0
  show ?case by simp
next
  case (Suc k)
  show ?case
  proof (cases "pool = []")
    case True
    then show ?thesis by simp
  next
    case False
    let ?i = "rnd k mod length pool"
    have "?i < length pool" using False by simp
    then have "pool ! ?i \<in> set pool" by simp
    moreover have "set (sample_from rnd k (take ?i pool @ drop (Suc ?i) pool)) \<subseteq> set pool"
      using Suc.IH [of "take ?i pool @ drop (Suc ?i) pool"]
        set_take_subset [of ?i pool] set_drop_subset [of "Suc ?i" pool]
      by auto
    ultimately show ?thesis using False by (simp add: Let_def)
  qed
qed

lemma set_order_nodes: "set (order_nodes t rnd nodes) \<subseteq> set nodes"
  by (cases t)
     (simp_all add: order_nodes_def sort_by_area_def sort_by_width_def sort_by_height_def
        random_sample_def set_sample_from)

lemma scale_shrinks_stable: "stable scale_shrinks"
  unfolding stable_def scale_shrinks_def
proof (intro conjI allI impI)
  fix n :: pnode
  assume ok: "MAX_SCALE_DOWN \<le> scale n * SCALE_FACTOR"
  then have "0 < scale n" by (simp add: MAX_SCALE_DOWN_def SCALE_FACTOR_def)
  then have "scale n * SCALE_FACTOR \<le> scale n" by (simp add: SCALE_FACTOR_def)
  then show "scale (shrink n (scale n * SCALE_FACTOR)) \<le> scale n"
    by (simp add: shrink_def)
  show "scale (shrink n (scale n * SCALE_FACTOR)) = scale n \<or>
        MAX_SCALE_DOWN \<le> scale (shrink n (scale n * SCALE_FACTOR))"
    using ok by (simp add: shrink_def)
qed auto

lemma keeps_place_stable: "stable keeps_place"
  unfolding stable_def keeps_place_def by (auto simp: shrink_def)

lemma keeps_dims_stable: "stable keeps_dims"
  unfolding stable_def keeps_dims_def
  by (auto simp: shrink_def size_fields_def dims_truncated_def)

subsection \<open>Scale, dimensions, anchor and initial placement\<close>

lemma initial_rescale_node_scale:
  assumes "initial_rescale_node (new_node sz) = Inr n'"
  shows "0 < scale n' \<and> scale n' \<le> 1"
proof -
  obtain w h where sz: "sz = (w, h)" by (cases sz)
  show ?thesis
  proof (cases "int w > MAX_INITIAL_DIM \<or> int h > MAX_INITIAL_DIM")
    case True
    from assms True have wh: "0 < w" "0 < h"
      by (auto simp: sz initial_rescale_node_def new_node_def split: if_splits)
    from initial_rescale_new_node_large [OF True wh] assms cap_scale_less_1 [OF True wh]
    show ?thesis by (auto simp: sz)
  next
    case False
    with initial_rescale_new_node_small [of w h] assms show ?thesis
      by (auto simp: sz new_node_def)
  qed
qed

text \<open>
  Claim C1, as stated, fails: the Initial Downscaler gives a 1024 by 768 image the scale
  1/2, which is below \<open>MAX_SCALE_DOWN\<close>.
\<close>

theorem scale_below_floor_counterexample:
  "initial_rescale_node (new_node (1024, 768)) = Inr half_scaled \<and>
   scale half_scaled < MAX_SCALE_DOWN"
  by (simp add: initial_rescale_node_def new_node_def half_scaled_def MAX_INITIAL_DIM_def
      MAX_SCALE_DOWN_def py_int_def)

text \<open>
  Claim C1, amended. Over a run (load, downscaler, ordering, placement and any number of
  relaxation rounds) the scale of every node is non-increasing and stays in the interval
  from 0 (excluded) to 1: it is 1 at load, the Initial Downscaler sets it to a value above 0
  and at most 1, ordering and placement keep it, and between any two points \<open>k \<le> k'\<close>
  of the relaxation loop it does not grow. The Overlap Rescaler never sets a scale below
  \<open>MAX_SCALE_DOWN\<close>: after any number of rounds, and after any single sweep on any
  layout, a scale is either what it was or at least \<open>MAX_SCALE_DOWN\<close>.
\<close>

theorem scale_non_increasing:
  assumes "load_images img_open paths = Inr loaded"
    and "initial_rescale loaded = Inr nodes"
    and "place_initial (order_nodes t rnd nodes) = Inr placed"
    and "k \<le> k'" and "i < length placed"
  shows "0 < scale (relax k' placed ! i) \<and>
         scale (relax k' placed ! i) \<le> scale (relax k placed ! i) \<and>
         scale (relax k placed ! i) \<le> scale (placed ! i) \<and>
         scale (placed ! i) \<le> 1 \<and>
         (scale (relax k' placed ! i) = scale (placed ! i) \<or>
          MAX_SCALE_DOWN \<le> scale (relax k' placed ! i)) \<and>
         (\<exists>j<length nodes. size_fields (placed ! i) = size_fields (nodes ! j) \<and>
                            scale (loaded ! j) = 1) \<and>
         (\<forall>m<length ms.
            scale (snd (attempt_rescale ms) ! m) \<le> scale (ms ! m) \<and>
            (scale (snd (attempt_rescale ms) ! m) = scale (ms ! m) \<or>
             MAX_SCALE_DOWN \<le> scale (snd (attempt_rescale ms) ! m)))"
proof -
  let ?ordered = "order_nodes t rnd nodes"
  from place_initial_nth [OF assms(3)] have len: "length placed = length ?ordered" by simp
  with assms(5) have i: "i < length ?ordered" by simp
  then have "?ordered ! i \<in> set nodes" using set_order_nodes [of t rnd nodes] nth_mem by blast
  then obtain j where j: "j < length nodes" "nodes ! j = ?ordered ! i"
    by (auto simp: in_set_conv_nth)
  from place_initial_size_fields [OF assms(3) i] j
  have sf: "size_fields (placed ! i) = size_fields (nodes ! j)" by simp
  from initial_rescale_nth [OF assms(2)] j
  have lenn: "length nodes = length loaded"
    and step: "initial_rescale_node (loaded ! j) = Inr (nodes ! j)" by auto
  from load_images_nth [OF assms(1)] j lenn obtain sz where ld: "loaded ! j = new_node sz"
    by auto
  from initial_rescale_node_scale [of sz "nodes ! j"] step ld
  have "0 < scale (nodes ! j) \<and> scale (nodes ! j) \<le> 1" by simp
  with sf have s0: "0 < scale (placed ! i)" "scale (placed ! i) \<le> 1"
    by (simp_all add: size_fields_def)
  from pointwise_relax [OF scale_shrinks_stable, of placed k] assms(5)
  have a: "scale_shrinks (placed ! i) (relax k placed ! i)" by (simp add: pointwise_def)
  from pointwise_relax [OF scale_shrinks_stable, of placed k'] assms(5)
  have b: "scale_shrinks (placed ! i) (relax k' placed ! i)" by (simp add: pointwise_def)
  from pointwise_relax_le [OF scale_shrinks_stable assms(4), of placed]
       pointwise_relax [OF scale_shrinks_stable, of placed k] assms(5)
  have c: "scale_shrinks (relax k placed ! i) (relax k' placed ! i)" by (simp add: pointwise_def)
  have pos: "0 < scale (relax k' placed ! i)"
    using b s0 by (auto simp: scale_shrinks_def MAX_SCALE_DOWN_def)
  have sweep: "\<forall>m<length ms.
            scale (snd (attempt_rescale ms) ! m) \<le> scale (ms ! m) \<and>
            (scale (snd (attempt_rescale ms) ! m) = scale (ms ! m) \<or>
             MAX_SCALE_DOWN \<le> scale (snd (attempt_rescale ms) ! m))"
    using pointwise_attempt_rescale [OF scale_shrinks_stable, of ms]
    by (simp add: pointwise_def scale_shrinks_def)
  have "\<exists>j<length nodes. size_fields (placed ! i) = size_fields (nodes ! j) \<and>
                            scale (loaded ! j) = 1"
    using j sf ld by (auto simp: new_node_def)
  with a b c pos s0 sweep show ?thesis unfolding scale_shrinks_def by blast
qed

text \<open>
  The run of one 1024 by 768 image: its scale is 1/2 after the downscaler and still 1/2
  after a round of relaxation.
\<close>

theorem scale_non_increasing_witness:
  "load_images example_decoder [''a.png''] = Inr [new_node (1024, 768)] \<and>
   initial_rescale [new_node (1024, 768)] = Inr [half_scaled] \<and>
   place_initial (order_nodes NONE Suc [half_scaled]) = Inr [anchor_half] \<and>
   (0::nat) \<le> 1 \<and> 0 < length [anchor_half] \<and>
   scale (relax 1 [anchor_half] ! 0) = 1 / 2"
proof -
  have ld: "load_images example_decoder [''a.png''] = Inr [new_node (1024, 768)]"
    by (simp add: example_decoder_def)
  have rs: "initial_rescale [new_node (1024, 768)] = Inr [half_scaled]"
    by (simp add: initial_rescale_node_def new_node_def half_scaled_def MAX_INITIAL_DIM_def
        py_int_def)
  have pl: "place_initial (order_nodes NONE Suc [half_scaled]) = Inr [anchor_half]"
    by (simp add: order_nodes_def half_scaled_def anchor_half_def place_def CENTER_def
        TARGET_SIZE_def)
  have le: "(0::nat) \<le> 1" by simp
  have i: "0 < length [anchor_half]" by simp
  from scale_non_increasing [OF ld rs pl le i]
  have "scale (relax 1 [anchor_half] ! 0) = scale ([anchor_half] ! 0) \<or>
        MAX_SCALE_DOWN \<le> scale (relax 1 [anchor_half] ! 0)"
    and "scale (relax 1 [anchor_half] ! 0) \<le> scale (relax 0 [anchor_half] ! 0)"
    and "scale (relax 0 [anchor_half] ! 0) \<le> scale ([anchor_half] ! 0)"
    by blast+
  then have "scale (relax 1 [anchor_half] ! 0) = 1 / 2"
    by (auto simp: anchor_half_def MAX_SCALE_DOWN_def)
  with ld rs pl le i show ?thesis by blast
qed

lemma initial_rescale_node_dims:
  assumes "initial_rescale_node n = Inr n'"
  shows "n' = n \<or> dims_truncated n'"
  using assms
  by (auto simp: initial_rescale_node_def dims_truncated_def Let_def split: if_splits)

lemma load_images_dims:
  assumes "load_images img_open paths = Inr loaded" and "n \<in> set loaded"
  shows "dims_truncated n"
proof -
  from assms(2) obtain i where "i < length loaded" "n = loaded ! i"
    by (auto simp: in_set_conv_nth)
  with load_images_nth [OF assms(1)] obtain sz where "n = new_node sz" by auto
  then show ?thesis by (simp add: dims_truncated_def new_node_def py_int_def)
qed

lemma initial_rescale_dims:
  assumes "load_images img_open paths = Inr loaded" and "initial_rescale loaded = Inr nodes"
    and "i < length nodes"
  shows "dims_truncated (nodes ! i)"
proof -
  from initial_rescale_nth [OF assms(2)] assms(3)
  have i: "i < length loaded" and step: "initial_rescale_node (loaded ! i) = Inr (nodes ! i)"
    by auto
  from load_images_dims [OF assms(1)] i have "dims_truncated (loaded ! i)" by simp
  with initial_rescale_node_dims [OF step] show ?thesis by auto
qed

text \<open>
  Claim C2, as stated, fails: for a 1000 by 900 image the downscaler sets the scale
  64/125 and the height 460, where rounding 460.8 to the nearest integer gives 461.
\<close>

theorem rounded_dimension_counterexample:
  "initial_rescale_node (new_node (1000, 900)) = Inr tall_scaled \<and>
   height tall_scaled = 460 \<and>
   round (real_of_int (orig_height tall_scaled) * scale tall_scaled) = (461::int)"
proof -
  have "round (900 * (64 / 125) :: real) = (461::int)"
    by (simp add: round_def)
  moreover have "initial_rescale_node (new_node (1000, 900)) = Inr tall_scaled"
    by (simp add: initial_rescale_node_def new_node_def tall_scaled_def MAX_INITIAL_DIM_def
        py_int_def)
  ultimately show ?thesis by (simp add: tall_scaled_def)
qed

text \<open>
  Claim C2, amended. The integer dimensions are the original dimensions times the scale,
  truncated towards zero: a node that the Initial Downscaler changes satisfies this, so
  does every node after the downscaler has run on freshly loaded nodes, and after a sweep
  of the Overlap Rescaler, or any number of relaxation rounds, every node either has its
  original size, size and scale unchanged or satisfies it.
\<close>

theorem dimensions_truncated:
  "(initial_rescale_node n = Inr n' \<longrightarrow> n' = n \<or> dims_truncated n') \<and>
   (\<forall>i<length ms.
      size_fields (snd (attempt_rescale ms) ! i) = size_fields (ms ! i) \<or>
      dims_truncated (snd (attempt_rescale ms) ! i)) \<and>
   (\<forall>i<length ms.
      size_fields (relax k ms ! i) = size_fields (ms ! i) \<or> dims_truncated (relax k ms ! i)) \<and>
   (load_images img_open paths = Inr loaded \<longrightarrow> initial_rescale loaded = Inr nodes \<longrightarrow>
      (\<forall>i<length nodes. dims_truncated (nodes ! i)))"
proof (intro conjI)
  show "load_images img_open paths = Inr loaded \<longrightarrow> initial_rescale loaded = Inr nodes \<longrightarrow>
      (\<forall>i<length nodes. dims_truncated (nodes ! i))"
    using initial_rescale_dims by blast
  show "initial_rescale_node n = Inr n' \<longrightarrow> n' = n \<or> dims_truncated n'"
    using initial_rescale_node_dims by blast
  show "\<forall>i<length ms.
      size_fields (snd (attempt_rescale ms) ! i) = size_fields (ms ! i) \<or>
      dims_truncated (snd (attempt_rescale ms) ! i)"
    using pointwise_attempt_rescale [OF keeps_dims_stable, of ms]
    by (simp add: pointwise_def keeps_dims_def)
  show "\<forall>i<length ms.
      size_fields (relax k ms ! i) = size_fields (ms ! i) \<or> dims_truncated (relax k ms ! i)"
    using pointwise_relax [OF keeps_dims_stable, of ms k]
    by (simp add: pointwise_def keeps_dims_def)
qed

lemma CENTER_eq: "CENTER = (2048, 2048)"
  by (simp add: CENTER_def TARGET_SIZE_def)

text \<open>
  Claim C6. After Initial Placement the node at index 0 is fixed at the canvas centre. In
  every round of the relaxation the Force Field Solver skips it, and its coordinates after
  any number of rounds, and after the whole of \<open>run_relaxation\<close>, are those it was
  placed at.
\<close>

theorem anchor_never_moves:
  assumes "place_initial nodes = Inr placed"
  shows "fixed (placed ! 0) \<and>
         x (placed ! 0) = real_of_int (fst CENTER) \<and> y (placed ! 0) = real_of_int (snd CENTER) \<and>
         fixed (relax k placed ! 0) \<and>
         move_node 0 (relax k placed) = relax k placed ! 0 \<and>
         x (relax k placed ! 0) = x (placed ! 0) \<and> y (relax k placed ! 0) = y (placed ! 0) \<and>
         x (run_relaxation placed ! 0) = x (placed ! 0) \<and>
         y (run_relaxation placed ! 0) = y (placed ! 0)"
proof -
  from place_initial_nth [OF assms] have ne: "0 < length placed"
    and anchor: "placed ! 0 = place ((nodes ! 0)\<lparr>fixed := True\<rparr>)
                    (real_of_int (fst CENTER)) (real_of_int (snd CENTER))"
    by auto
  from anchor have fx: "fixed (placed ! 0)" "x (placed ! 0) = real_of_int (fst CENTER)"
    "y (placed ! 0) = real_of_int (snd CENTER)" by simp_all
  have keep: "keeps_place (placed ! 0) (relax m placed ! 0)" for m
    using pointwise_relax [OF keeps_place_stable, of placed m] ne by (simp add: pointwise_def)
  from keep [of k] fx have k: "fixed (relax k placed ! 0)"
    "x (relax k placed ! 0) = x (placed ! 0)" "y (relax k placed ! 0) = y (placed ! 0)"
    by (simp_all add: keeps_place_def)
  from k(1) have skip: "move_node 0 (relax k placed) = relax k placed ! 0"
    by (simp add: move_node_def)
  from keep [of RELAXATION_ITERATIONS] fx
  have "x (run_relaxation placed ! 0) = x (placed ! 0)"
       "y (run_relaxation placed ! 0) = y (placed ! 0)"
    by (simp_all add: keeps_place_def run_relaxation_def)
  with fx k skip show ?thesis by blast
qed

text \<open>
  Two loaded nodes: the anchor is at (2048, 2048) after seven rounds and after the whole
  relaxation.
\<close>

theorem anchor_never_moves_witness:
  "\<exists>placed. place_initial [new_node (400, 400), new_node (200, 100)] = Inr placed \<and>
     x (run_relaxation placed ! 0) = 2048 \<and> y (run_relaxation placed ! 0) = 2048 \<and>
     x (relax 7 placed ! 0) = 2048 \<and> y (relax 7 placed ! 0) = 2048"
proof -
  obtain placed where pl: "place_initial [new_node (400, 400), new_node (200, 100)] = Inr placed"
    by (simp add: Let_def)
  from anchor_never_moves [OF pl, of 7] show ?thesis
    using pl by (simp add: CENTER_eq)
qed

text \<open>
  Claim C7. On a layout of \<open>n \<ge> 2\<close> nodes Initial Placement returns; the node at
  index 0 is placed at the canvas centre and marked fixed, and for every \<open>i\<close> from 0 to
  \<open>n - 2\<close> the node at index \<open>i + 1\<close> is placed at
  \<open>(centerX + INITIAL_RADIUS * cos (angleStep * i), centerY + INITIAL_RADIUS * sin (angleStep * i))\<close>
  with \<open>angleStep = 6 * pi / (n - 1)\<close>, its other fields unchanged.
\<close>

theorem place_initial_circle:
  assumes "2 \<le> length nodes"
  shows "\<exists>placed. place_initial nodes = Inr placed \<and> length placed = length nodes \<and>
     fixed (placed ! 0) \<and>
     x (placed ! 0) = real_of_int (fst CENTER) \<and> y (placed ! 0) = real_of_int (snd CENTER) \<and>
     size_fields (placed ! 0) = size_fields (nodes ! 0) \<and>
     (\<forall>i\<le>length nodes - 2.
        x (placed ! (i + 1)) = real_of_int (fst CENTER) +
           INITIAL_RADIUS * cos (6 * pi / real (length nodes - 1) * real i) \<and>
        y (placed ! (i + 1)) = real_of_int (snd CENTER) +
           INITIAL_RADIUS * sin (6 * pi / real (length nodes - 1) * real i) \<and>
        fixed (placed ! (i + 1)) = fixed (nodes ! (i + 1)) \<and>
        size_fields (placed ! (i + 1)) = size_fields (nodes ! (i + 1)))"
proof -
  from assms obtain n0 rest where nodes: "nodes = n0 # rest" by (cases nodes) auto
  then obtain placed where pl: "place_initial nodes = Inr placed" by (simp add: Let_def)
  from place_initial_nth [OF pl] have len: "length placed = length nodes"
    and anchor: "placed ! 0 = place ((nodes ! 0)\<lparr>fixed := True\<rparr>)
                    (real_of_int (fst CENTER)) (real_of_int (snd CENTER))"
    and others: "\<And>i. 0 < i \<Longrightarrow> i < length nodes \<Longrightarrow>
        placed ! i = place_on_circle (angle_step (length nodes)) (i, nodes ! i)"
    by auto
  have step: "angle_step (length nodes) = 6 * pi / real (length nodes - 1)"
    using assms by (simp add: angle_step_def max_def of_nat_diff)
  have "x (placed ! (i + 1)) = real_of_int (fst CENTER) +
           INITIAL_RADIUS * cos (6 * pi / real (length nodes - 1) * real i) \<and>
        y (placed ! (i + 1)) = real_of_int (snd CENTER) +
           INITIAL_RADIUS * sin (6 * pi / real (length nodes - 1) * real i) \<and>
        fixed (placed ! (i + 1)) = fixed (nodes ! (i + 1)) \<and>
        size_fields (placed ! (i + 1)) = size_fields (nodes ! (i + 1))"
    if "i \<le> length nodes - 2" for i
  proof -
    from that assms have "0 < i + 1" "i + 1 < length nodes" by auto
    from others [OF this] show ?thesis
      by (simp add: place_on_circle_def Let_def step size_fields_def)
  qed
  moreover have "fixed (placed ! 0)" "x (placed ! 0) = real_of_int (fst CENTER)"
    "y (placed ! 0) = real_of_int (snd CENTER)" "size_fields (placed ! 0) = size_fields (nodes ! 0)"
    using anchor by (simp_all add: size_fields_def)
  ultimately show ?thesis using pl len by blast
qed

text \<open>
  Two nodes: the second one is placed at angle 0, at (2560, 2048).
\<close>

theorem place_initial_circle_witness:
  "2 \<le> length [new_node (400, 400), new_node (200, 100)] \<and>
   (\<exists>placed. place_initial [new_node (400, 400), new_node (200, 100)] = Inr placed \<and>
      x (placed ! 0) = 2048 \<and> y (placed ! 0) = 2048 \<and> fixed (placed ! 0) \<and>
      x (placed ! 1) = 2560 \<and> y (placed ! 1) = 2048 \<and> \<not> fixed (placed ! 1))"
proof -
  have len: "2 \<le> length [new_node (400, 400), new_node (200, 100)]"
    by simp
  from place_initial_circle [OF len] obtain placed where
    pl: "place_initial [new_node (400, 400), new_node (200, 100)] = Inr placed"
    and anchor: "fixed (placed ! 0)" "x (placed ! 0) = real_of_int (fst CENTER)"
      "y (placed ! 0) = real_of_int (snd CENTER)"
    and circle: "\<forall>i\<le>length [new_node (400, 400), new_node (200, 100)] - 2.
        x (placed ! (i + 1)) = real_of_int (fst CENTER) +
           INITIAL_RADIUS * cos (6 * pi / real (length [new_node (400, 400), new_node (200, 100)] - 1) * real i) \<and>
        y (placed ! (i + 1)) = real_of_int (snd CENTER) +
           INITIAL_RADIUS * sin (6 * pi / real (length [new_node (400, 400), new_node (200, 100)] - 1) * real i) \<and>
        fixed (placed ! (i + 1)) = fixed ([new_node (400, 400), new_node (200, 100)] ! (i + 1)) \<and>
        size_fields (placed ! (i + 1)) = size_fields ([new_node (400, 400), new_node (200, 100)] ! (i + 1))"
    by blast
  from circle [rule_format, of 0]
  have one: "x (placed ! 1) = 2560" "y (placed ! 1) = 2048" "\<not> fixed (placed ! 1)"
    by (simp_all add: CENTER_eq INITIAL_RADIUS_def new_node_def)
  from len pl anchor one show ?thesis by (auto simp: CENTER_eq)
qed


subsection \<open>The overlap rescaler\<close>

lemma foldl_skip:
  assumes "\<And>s a. a \<in> set xs \<Longrightarrow> f s a = s"
  shows "foldl f s xs = s"
  using assms by (induction xs arbitrary: s) auto

lemma foldl_pairs:
  "foldl (\<lambda>st i. foldl (\<lambda>st' j. h i j st') st (js i)) s is =
   foldl (\<lambda>st p. h (fst p) (snd p) st) s (concat (map (\<lambda>i. map (Pair i) (js i)) is))"
proof (induction "is" arbitrary: s)
  case Nil
  show ?case by simp
next
  case (Cons i "is")
  have "foldl (\<lambda>st p. h (fst p) (snd p) st) s (map (Pair i) (js i)) =
        foldl (\<lambda>st' j. h i j st') s (js i)"
    by (simp add: foldl_map)
  with Cons show ?case by simp
qed

lemma inner_loop_skips:
  assumes "i < n"
  shows "foldl (\<lambda>st' j. rescale_pair i j st') st [0..<n] =
         foldl (\<lambda>st' j. rescale_pair i j st') st [Suc i..<n]"
proof -
  from assms obtain k where n: "n = Suc i + k"
    using less_iff_Suc_add by auto
  have "[0..<n] = [0..<Suc i] @ [Suc i..<n]"
    unfolding n by (rule upt_add_eq_append) simp
  moreover have "foldl (\<lambda>st' j. rescale_pair i j st') st [0..<Suc i] = st"
    by (rule foldl_skip) (auto intro: rescale_pair_skip)
  ultimately show ?thesis by (simp del: upt_Suc)
qed

lemma attempt_rescale_pairs:
  "attempt_rescale nodes =
     foldl (\<lambda>st p. rescale_pair (fst p) (snd p) st) (False, nodes)
       (unordered_pairs (length nodes))"
proof -
  let ?n = "length nodes"
  have "attempt_rescale nodes =
      foldl (\<lambda>st i. foldl (\<lambda>st' j. rescale_pair i j st') st [Suc i..<?n]) (False, nodes) [0..<?n]"
    unfolding attempt_rescale_def
    by (rule foldl_cong) (simp_all add: inner_loop_skips)
  also have "\<dots> = foldl (\<lambda>st p. rescale_pair (fst p) (snd p) st) (False, nodes)
       (unordered_pairs ?n)"
    unfolding unordered_pairs_def by (rule foldl_pairs)
  finally show ?thesis .
qed

lemma unordered_pairs_bounds:
  "(i, j) \<in> set (unordered_pairs n) \<Longrightarrow> i < j \<and> j < n"
  by (auto simp: unordered_pairs_def)

lemma boxes_overlap_meet:
  "boxes_overlap a b m = boxes_meet (expand_box a m) b"
  by (cases a; cases b) (auto simp: boxes_overlap_def boxes_meet_def expand_box_def)

lemma rescale_pair_words:
  "i < j \<Longrightarrow> rescale_pair i j st = shrink_smaller_of_pair st (i, j)"
  by (cases st)
     (simp add: rescale_pair_def shrink_smaller_of_pair_def boxes_overlap_meet area_def Let_def)

lemma attempt_rescale_words:
  "attempt_rescale nodes =
     foldl shrink_smaller_of_pair (False, nodes) (unordered_pairs (length nodes))"
  unfolding attempt_rescale_pairs
  by (rule foldl_cong) (auto dest: unordered_pairs_bounds simp: rescale_pair_words)

lemma unordered_pairs_2: "unordered_pairs (Suc (Suc 0)) = [(0, 1)]"
  by (simp add: unordered_pairs_def)

lemma unordered_pairs_3: "unordered_pairs (Suc (Suc (Suc 0))) = [(0, 1), (0, 2), (1, 2)]"
  by (simp add: unordered_pairs_def numeral_2_eq_2)


lemma shrink_scale_less:
  assumes "MAX_SCALE_DOWN \<le> scale n * SCALE_FACTOR"
  shows "scale (shrink n (scale n * SCALE_FACTOR)) < scale n"
proof -
  from assms have "0 < scale n" by (simp add: MAX_SCALE_DOWN_def SCALE_FACTOR_def)
  then show ?thesis by (simp add: shrink_def SCALE_FACTOR_def)
qed

lemma attempt_rescale_changed:
  "(fst (attempt_rescale nodes) \<longleftrightarrow> snd (attempt_rescale nodes) \<noteq> nodes)"
proof -
  let ?P = "\<lambda>st. (\<forall>i<length nodes. scale (snd st ! i) \<le> scale (nodes ! i)) \<and>
                 (if fst st then \<exists>i<length nodes. scale (snd st ! i) < scale (nodes ! i)
                  else snd st = nodes)"
  have "?P (attempt_rescale nodes) \<and> length (snd (attempt_rescale nodes)) = length nodes"
  proof (rule attempt_rescale_induct [where P = ?P])
    show "?P (False, nodes)" by simp
  next
    fix i j :: nat and c :: bool and ms :: "pnode list"
    assume ij: "i < j" and j: "j < length nodes" and len: "length ms = length nodes"
      and P: "?P (c, ms)"
    from j len have j': "j < length ms" by simp
    show "?P (rescale_pair i j (c, ms))"
    proof (rule rescale_pair_cases [OF ij j', of c])
      assume same: "rescale_pair i j (c, ms) = (c, ms)"
      show ?thesis unfolding same using P .
    next
      fix k
      assume k: "k < length ms" and ok: "MAX_SCALE_DOWN \<le> scale (ms ! k) * SCALE_FACTOR"
        and eq: "rescale_pair i j (c, ms) =
                   (True, ms[k := shrink (ms ! k) (scale (ms ! k) * SCALE_FACTOR)])"
      let ?ms' = "ms[k := shrink (ms ! k) (scale (ms ! k) * SCALE_FACTOR)]"
      from P have le: "\<forall>i<length nodes. scale (ms ! i) \<le> scale (nodes ! i)" by simp
      from shrink_scale_less [OF ok] have lt: "scale (?ms' ! k) < scale (ms ! k)"
        using k by simp
      have le': "\<forall>i<length nodes. scale (?ms' ! i) \<le> scale (nodes ! i)"
      proof (intro allI impI)
        fix m assume m: "m < length nodes"
        show "scale (?ms' ! m) \<le> scale (nodes ! m)"
        proof (cases "m = k")
          case True
          with lt le m show ?thesis by force
        next
          case False
          with le m show ?thesis by simp
        qed
      qed
      from lt le k len have "scale (?ms' ! k) < scale (nodes ! k)" by force
      with k len have "\<exists>i<length nodes. scale (?ms' ! i) < scale (nodes ! i)" by auto
      with le' show ?thesis by (simp add: eq)
    qed
  qed
  then have P: "?P (attempt_rescale nodes)" by simp
  show ?thesis
  proof (cases "fst (attempt_rescale nodes)")
    case True
    with P obtain i where "i < length nodes"
      "scale (snd (attempt_rescale nodes) ! i) < scale (nodes ! i)" by auto
    then have "snd (attempt_rescale nodes) \<noteq> nodes" by auto
    with True show ?thesis by simp
  next
    case False
    with P show ?thesis by simp
  qed
qed

text \<open>
  Claim C5. One invocation of the Overlap Rescaler goes once through the unordered pairs
  of nodes and does to each what the specification says (for a pair whose boxes are within
  the margin of each other the node with the smaller current \<open>width * height\<close>, the second
  node of the pair when neither is smaller, has its scale multiplied by \<open>SCALE_FACTOR\<close> if
  the result is at least \<open>MAX_SCALE_DOWN\<close>, and is left unchanged otherwise); it returns
  true if and only if the layout has changed; and every scale it has changed is at least
  \<open>MAX_SCALE_DOWN\<close>.
\<close>

theorem attempt_rescale_sweep:
  "attempt_rescale nodes =
     foldl shrink_smaller_of_pair (False, nodes) (unordered_pairs (length nodes)) \<and>
   (fst (attempt_rescale nodes) \<longleftrightarrow> snd (attempt_rescale nodes) \<noteq> nodes) \<and>
   length (snd (attempt_rescale nodes)) = length nodes \<and>
   (\<forall>i<length nodes.
      scale (snd (attempt_rescale nodes) ! i) = scale (nodes ! i) \<or>
      MAX_SCALE_DOWN \<le> scale (snd (attempt_rescale nodes) ! i))"
proof -
  have "pointwise scale_shrinks nodes (snd (attempt_rescale nodes))"
    using scale_shrinks_stable by (rule pointwise_attempt_rescale)
  then have "length (snd (attempt_rescale nodes)) = length nodes \<and>
   (\<forall>i<length nodes.
      scale (snd (attempt_rescale nodes) ! i) = scale (nodes ! i) \<or>
      MAX_SCALE_DOWN \<le> scale (snd (attempt_rescale nodes) ! i))"
    by (simp add: pointwise_def scale_shrinks_def)
  with attempt_rescale_words [of nodes] attempt_rescale_changed [of nodes]
  show ?thesis by blast
qed

lemmas example_values =
  bounding_box_def boxes_overlap_def area_def shrink_def
  py_int_def SCALE_FACTOR_def MAX_SCALE_DOWN_def MARGIN_DISTANCE_def Let_def

text \<open>
  Two overlapping nodes: the smaller one is shrunk to scale 0.95 and the sweep returns
  true; at scale 0.78 the product 0.741 is below the floor, nothing changes and the sweep
  returns false.
\<close>

theorem attempt_rescale_sweep_witness:
  "attempt_rescale [pair_big, pair_small] = (True, [pair_big, pair_small_shrunk]) \<and>
   attempt_rescale [pair_big, pair_small_floor] = (False, [pair_big, pair_small_floor])"
proof -
  have "attempt_rescale [pair_big, pair_small] =
          foldl shrink_smaller_of_pair (False, [pair_big, pair_small])
            (unordered_pairs (length [pair_big, pair_small]))"
    using attempt_rescale_sweep [of "[pair_big, pair_small]"] by blast
  also have "\<dots> = (True, [pair_big, pair_small_shrunk])"
    by (simp add: unordered_pairs_2 shrink_smaller_of_pair_def boxes_meet_def expand_box_def
        example_values
        pair_big_def pair_small_def pair_small_shrunk_def)
  finally have a: "attempt_rescale [pair_big, pair_small] = (True, [pair_big, pair_small_shrunk])" .
  have "attempt_rescale [pair_big, pair_small_floor] =
          foldl shrink_smaller_of_pair (False, [pair_big, pair_small_floor])
            (unordered_pairs (length [pair_big, pair_small_floor]))"
    using attempt_rescale_sweep [of "[pair_big, pair_small_floor]"] by blast
  also have "\<dots> = (False, [pair_big, pair_small_floor])"
    by (simp add: unordered_pairs_2 shrink_smaller_of_pair_def boxes_meet_def expand_box_def
        example_values
        pair_big_def pair_small_floor_def)
  finally have b: "attempt_rescale [pair_big, pair_small_floor] = (False, [pair_big, pair_small_floor])" .
  from a b show ?thesis by blast
qed

lemma attempt_rescale_pair_example:
  "attempt_rescale [pair_big, pair_small] = (True, [pair_big, pair_small_shrunk])"
  by (simp add: attempt_rescale_pairs unordered_pairs_2 rescale_pair_def example_values
      pair_big_def pair_small_def pair_small_shrunk_def)

text \<open>
  The 1000 by 900 image after the downscaler, and the smaller node of an overlapping pair
  after one sweep, have truncated dimensions.
\<close>

theorem dimensions_truncated_witness:
  "initial_rescale_node (new_node (1000, 900)) = Inr tall_scaled \<and> dims_truncated tall_scaled \<and>
   (1::nat) < length [pair_big, pair_small] \<and>
   dims_truncated (snd (attempt_rescale [pair_big, pair_small]) ! 1) \<and>
   load_images example_decoder [''c.png''] = Inr [new_node (1000, 900)] \<and>
   initial_rescale [new_node (1000, 900)] = Inr [tall_scaled]"
proof -
  have rs: "initial_rescale_node (new_node (1000, 900)) = Inr tall_scaled"
    by (simp add: initial_rescale_node_def new_node_def tall_scaled_def MAX_INITIAL_DIM_def
        py_int_def)
  have ld: "load_images example_decoder [''c.png''] = Inr [new_node (1000, 900)]"
    by (simp add: example_decoder_def)
  from rs have rsl: "initial_rescale [new_node (1000, 900)] = Inr [tall_scaled]" by simp
  note inst = dimensions_truncated [of "new_node (1000, 900)" tall_scaled "[pair_big, pair_small]"
      0 example_decoder "[''c.png'']" "[new_node (1000, 900)]" "[tall_scaled]"]
  from inst rs have "tall_scaled = new_node (1000, 900) \<or> dims_truncated tall_scaled" by blast
  then have a: "dims_truncated tall_scaled" by (auto simp: tall_scaled_def new_node_def)
  from inst have sweep: "\<forall>i<length [pair_big, pair_small].
      size_fields (snd (attempt_rescale [pair_big, pair_small]) ! i) =
        size_fields ([pair_big, pair_small] ! i) \<or>
      dims_truncated (snd (attempt_rescale [pair_big, pair_small]) ! i)"
    by blast
  have "(1::nat) < length [pair_big, pair_small]" by simp
  with sweep have "size_fields (snd (attempt_rescale [pair_big, pair_small]) ! 1) =
                   size_fields ([pair_big, pair_small] ! 1) \<or>
                 dims_truncated (snd (attempt_rescale [pair_big, pair_small]) ! 1)"
    by blast
  then have "size_fields pair_small_shrunk = size_fields pair_small \<or>
             dims_truncated (snd (attempt_rescale [pair_big, pair_small]) ! 1)"
    unfolding attempt_rescale_pair_example by simp
  then have b: "dims_truncated (snd (attempt_rescale [pair_big, pair_small]) ! 1)"
    by (simp add: size_fields_def pair_small_def pair_small_shrunk_def)
  from rs ld rsl a b show ?thesis by simp
qed

lemma attempt_rescale_snapshot_row:
  "attempt_rescale_snapshot [row_a, row_b, row_c] = (True, [row_a, row_b_shrunk, row_c_shrunk])"
  by (simp add: attempt_rescale_snapshot_def unordered_pairs_3 rescale_pair_snapshot_def
      example_values row_a_def row_b_def row_c_def row_b_shrunk_def row_c_shrunk_def)

lemma rescale_pair_row_01:
  "rescale_pair 0 (Suc 0) (False, [row_a, row_b, row_c]) = (True, [row_a, row_b_shrunk, row_c])"
  by (simp add: rescale_pair_def example_values row_a_def row_b_def row_c_def row_b_shrunk_def)

lemma rescale_pair_row_02:
  "rescale_pair 0 2 (True, [row_a, row_b_shrunk, row_c]) = (True, [row_a, row_b_shrunk, row_c])"
  by (simp add: rescale_pair_def example_values row_a_def row_c_def)

lemma rescale_pair_row_12:
  "rescale_pair (Suc 0) 2 (True, [row_a, row_b_shrunk, row_c]) = (True, [row_a, row_b_shrunk, row_c])"
  by (simp add: rescale_pair_def example_values row_b_shrunk_def row_c_def)

lemma rescale_pair_explicit:
  assumes "i < j"
  shows "rescale_pair i j (c, ms) =
    (if \<not> (x (ms ! i) + real_of_int (width (ms ! i)) / 2 + MARGIN_DISTANCE
               < x (ms ! j) - real_of_int (width (ms ! j)) / 2 \<or>
            x (ms ! j) + real_of_int (width (ms ! j)) / 2 + MARGIN_DISTANCE
               < x (ms ! i) - real_of_int (width (ms ! i)) / 2 \<or>
            y (ms ! i) + real_of_int (height (ms ! i)) / 2 + MARGIN_DISTANCE
               < y (ms ! j) - real_of_int (height (ms ! j)) / 2 \<or>
            y (ms ! j) + real_of_int (height (ms ! j)) / 2 + MARGIN_DISTANCE
               < y (ms ! i) - real_of_int (height (ms ! i)) / 2)
     then (if width (ms ! i) * height (ms ! i) < width (ms ! j) * height (ms ! j)
           then (if MAX_SCALE_DOWN \<le> scale (ms ! i) * SCALE_FACTOR
                 then (True, ms[i := (ms ! i)
                         \<lparr>scale := scale (ms ! i) * SCALE_FACTOR,
                          width := py_int (real_of_int (orig_width (ms ! i)) *
                                           (scale (ms ! i) * SCALE_FACTOR)),
                          height := py_int (real_of_int (orig_height (ms ! i)) *
                                            (scale (ms ! i) * SCALE_FACTOR))\<rparr>])
                 else (c, ms))
           else (if MAX_SCALE_DOWN \<le> scale (ms ! j) * SCALE_FACTOR
                 then (True, ms[j := (ms ! j)
                         \<lparr>scale := scale (ms ! j) * SCALE_FACTOR,
                          width := py_int (real_of_int (orig_width (ms ! j)) *
                                           (scale (ms ! j) * SCALE_FACTOR)),
                          height := py_int (real_of_int (orig_height (ms ! j)) *
                                            (scale (ms ! j) * SCALE_FACTOR))\<rparr>])
                 else (c, ms)))
     else (c, ms))"
  using assms
  by (simp add: rescale_pair_def bounding_box_def boxes_overlap_def shrink_def Let_def)

lemma attempt_rescale_snapshot_sel:
  "attempt_rescale_snapshot [sel_a, sel_b, sel_c] = (True, [sel_a, sel_b_once, sel_c_shrunk])"
  by (simp add: attempt_rescale_snapshot_def unordered_pairs_3 rescale_pair_snapshot_def
      example_values sel_a_def sel_b_def sel_c_def sel_b_once_def sel_c_shrunk_def)

lemma rescale_pair_sel_01:
  "rescale_pair 0 (Suc 0) (False, [sel_a, sel_b, sel_c]) = (True, [sel_a, sel_b_once, sel_c])"
  by (simp add: rescale_pair_def example_values sel_a_def sel_b_def sel_c_def sel_b_once_def)

lemma rescale_pair_sel_02:
  "rescale_pair 0 2 (True, [sel_a, sel_b_once, sel_c]) = (True, [sel_a, sel_b_once, sel_c])"
  by (simp add: rescale_pair_def example_values sel_a_def sel_c_def)

lemma rescale_pair_sel_12:
  "rescale_pair (Suc 0) 2 (True, [sel_a, sel_b_once, sel_c]) = (True, [sel_a, sel_b_twice, sel_c])"
  by (simp add: rescale_pair_def example_values sel_b_once_def sel_c_def sel_b_twice_def)

lemma attempt_rescale_row:
  "attempt_rescale [row_a, row_b, row_c] = (True, [row_a, row_b_shrunk, row_c])"
  by (simp add: attempt_rescale_pairs unordered_pairs_3 rescale_pair_row_01
      rescale_pair_row_02 rescale_pair_row_12)

lemma attempt_rescale_sel:
  "attempt_rescale [sel_a, sel_b, sel_c] = (True, [sel_a, sel_b_twice, sel_c])"
  by (simp add: attempt_rescale_pairs unordered_pairs_3 rescale_pair_sel_01
      rescale_pair_sel_02 rescale_pair_sel_12)

text \<open>
  Claim C10. When a pair \<open>(i, j)\<close> is reached, after whatever pairs come before it in
  the sweep, the overlap test is made on the boxes that the two nodes have in the state
  \<open>ms\<close> left by those pairs (their centre plus and minus half their current width and
  height, with the margin), and the smaller node is chosen by the current
  \<open>width * height\<close> in \<open>ms\<close>; the chosen node's new width and height are written at once.
  So a shrink made by an earlier pair is seen by both, and the sweep is not one decided on
  the sizes at sweep start. Two layouts show each effect. In a row of three equal nodes the
  first pair shrinks the middle node, which then is no longer within the margin of the
  third: the third keeps its size, where a decision on the sizes at sweep start shrinks it.
  In the second layout the middle node (area 10000, then 9025) is shrunk by the first pair
  below the area 9604 of the third, so the last pair shrinks the middle node again, where
  a decision on the sizes at sweep start shrinks the third.
\<close>

theorem rescale_reads_current_state:
  "(unordered_pairs (length nodes) = before @ (i, j) # after \<longrightarrow>
    foldl (\<lambda>st p. rescale_pair (fst p) (snd p) st) (False, nodes) before = (c, ms) \<longrightarrow>
      attempt_rescale nodes =
        foldl (\<lambda>st p. rescale_pair (fst p) (snd p) st)
          (if \<not> (x (ms ! i) + real_of_int (width (ms ! i)) / 2 + MARGIN_DISTANCE
                      < x (ms ! j) - real_of_int (width (ms ! j)) / 2 \<or>
                   x (ms ! j) + real_of_int (width (ms ! j)) / 2 + MARGIN_DISTANCE
                      < x (ms ! i) - real_of_int (width (ms ! i)) / 2 \<or>
                   y (ms ! i) + real_of_int (height (ms ! i)) / 2 + MARGIN_DISTANCE
                      < y (ms ! j) - real_of_int (height (ms ! j)) / 2 \<or>
                   y (ms ! j) + real_of_int (height (ms ! j)) / 2 + MARGIN_DISTANCE
                      < y (ms ! i) - real_of_int (height (ms ! i)) / 2)
            then (if width (ms ! i) * height (ms ! i) < width (ms ! j) * height (ms ! j)
                  then (if MAX_SCALE_DOWN \<le> scale (ms ! i) * SCALE_FACTOR
                        then (True, ms[i := (ms ! i)
                                \<lparr>scale := scale (ms ! i) * SCALE_FACTOR,
                                 width := py_int (real_of_int (orig_width (ms ! i)) *
                                                  (scale (ms ! i) * SCALE_FACTOR)),
                                 height := py_int (real_of_int (orig_height (ms ! i)) *
                                                   (scale (ms ! i) * SCALE_FACTOR))\<rparr>])
                        else (c, ms))
                  else (if MAX_SCALE_DOWN \<le> scale (ms ! j) * SCALE_FACTOR
                        then (True, ms[j := (ms ! j)
                                \<lparr>scale := scale (ms ! j) * SCALE_FACTOR,
                                 width := py_int (real_of_int (orig_width (ms ! j)) *
                                                  (scale (ms ! j) * SCALE_FACTOR)),
                                 height := py_int (real_of_int (orig_height (ms ! j)) *
                                                   (scale (ms ! j) * SCALE_FACTOR))\<rparr>])
                        else (c, ms)))
            else (c, ms))
          after) \<and>
   attempt_rescale [row_a, row_b, row_c] = (True, [row_a, row_b_shrunk, row_c]) \<and>
   attempt_rescale_snapshot [row_a, row_b, row_c] = (True, [row_a, row_b_shrunk, row_c_shrunk]) \<and>
   attempt_rescale [sel_a, sel_b, sel_c] = (True, [sel_a, sel_b_twice, sel_c]) \<and>
   attempt_rescale_snapshot [sel_a, sel_b, sel_c] = (True, [sel_a, sel_b_once, sel_c_shrunk])"
proof (intro conjI impI)
  assume pairs: "unordered_pairs (length nodes) = before @ (i, j) # after"
    and st: "foldl (\<lambda>st p. rescale_pair (fst p) (snd p) st) (False, nodes) before = (c, ms)"
  from pairs have "(i, j) \<in> set (unordered_pairs (length nodes))" by simp
  then have ij: "i < j" by (auto dest: unordered_pairs_bounds)
  have "attempt_rescale nodes =
          foldl (\<lambda>st p. rescale_pair (fst p) (snd p) st) (rescale_pair i j (c, ms)) after"
    by (simp add: attempt_rescale_pairs pairs st)
  then show "attempt_rescale nodes =
        foldl (\<lambda>st p. rescale_pair (fst p) (snd p) st)
          (if \<not> (x (ms ! i) + real_of_int (width (ms ! i)) / 2 + MARGIN_DISTANCE
                      < x (ms ! j) - real_of_int (width (ms ! j)) / 2 \<or>
                   x (ms ! j) + real_of_int (width (ms ! j)) / 2 + MARGIN_DISTANCE
                      < x (ms ! i) - real_of_int (width (ms ! i)) / 2 \<or>
                   y (ms ! i) + real_of_int (height (ms ! i)) / 2 + MARGIN_DISTANCE
                      < y (ms ! j) - real_of_int (height (ms ! j)) / 2 \<or>
                   y (ms ! j) + real_of_int (height (ms ! j)) / 2 + MARGIN_DISTANCE
                      < y (ms ! i) - real_of_int (height (ms ! i)) / 2)
            then (if width (ms ! i) * height (ms ! i) < width (ms ! j) * height (ms ! j)
                  then (if MAX_SCALE_DOWN \<le> scale (ms ! i) * SCALE_FACTOR
                        then (True, ms[i := (ms ! i)
                                \<lparr>scale := scale (ms ! i) * SCALE_FACTOR,
                                 width := py_int (real_of_int (orig_width (ms ! i)) *
                                                  (scale (ms ! i) * SCALE_FACTOR)),
                                 height := py_int (real_of_int (orig_height (ms ! i)) *
                                                   (scale (ms ! i) * SCALE_FACTOR))\<rparr>])
                        else (c, ms))
                  else (if MAX_SCALE_DOWN \<le> scale (ms ! j) * SCALE_FACTOR
                        then (True, ms[j := (ms ! j)
                                \<lparr>scale := scale (ms ! j) * SCALE_FACTOR,
                                 width := py_int (real_of_int (orig_width (ms ! j)) *
                                                  (scale (ms ! j) * SCALE_FACTOR)),
                                 height := py_int (real_of_int (orig_height (ms ! j)) *
                                                   (scale (ms ! j) * SCALE_FACTOR))\<rparr>])
                        else (c, ms)))
            else (c, ms))
          after"
    by (simp only: rescale_pair_explicit [OF ij])
qed (rule attempt_rescale_row attempt_rescale_snapshot_row attempt_rescale_sel
       attempt_rescale_snapshot_sel)+

text \<open>
  The second layout: the pair (1, 2) is examined after the pair (0, 1) has shrunk the
  middle node, whose area is then the smaller one.
\<close>

theorem rescale_reads_current_state_witness:
  "unordered_pairs (length [sel_a, sel_b, sel_c]) = [(0, 1), (0, 2)] @ (1, 2) # [] \<and>
   foldl (\<lambda>st p. rescale_pair (fst p) (snd p) st) (False, [sel_a, sel_b, sel_c]) [(0, 1), (0, 2)] =
     (True, [sel_a, sel_b_once, sel_c]) \<and>
   width sel_b * height sel_b = 10000 \<and> width sel_b_once * height sel_b_once = 9025 \<and>
   width sel_c * height sel_c = 9604 \<and>
   attempt_rescale [sel_a, sel_b, sel_c] = (True, [sel_a, sel_b_twice, sel_c])"
proof -
  have pairs: "unordered_pairs (length [sel_a, sel_b, sel_c]) = [(0, 1), (0, 2)] @ (1, 2) # []"
    by (simp add: unordered_pairs_3)
  have before: "foldl (\<lambda>st p. rescale_pair (fst p) (snd p) st) (False, [sel_a, sel_b, sel_c])
       [(0, 1), (0, 2)] = (True, [sel_a, sel_b_once, sel_c])"
    by (simp add: rescale_pair_sel_01 rescale_pair_sel_02)
  have areas: "width sel_b * height sel_b = 10000" "width sel_b_once * height sel_b_once = 9025"
    "width sel_c * height sel_c = 9604"
    by (simp_all add: sel_b_def sel_b_once_def sel_c_def)
  from rescale_reads_current_state [of "[sel_a, sel_b, sel_c]" "[(0, 1), (0, 2)]" 1 2 "[]"
      True "[sel_a, sel_b_once, sel_c]"] pairs before
  have "attempt_rescale [sel_a, sel_b, sel_c] = (True, [sel_a, sel_b_twice, sel_c])"
    by (simp add: sel_b_once_def sel_c_def sel_b_twice_def py_int_def SCALE_FACTOR_def
        MAX_SCALE_DOWN_def MARGIN_DISTANCE_def)
  with pairs before areas show ?thesis by blast
qed

subsection \<open>The force field solver\<close>

lemma sweep_length:
  "length (foldl (\<lambda>ns i. ns[i := move_node i ns]) nodes is) = length nodes"
  by (induction "is" arbitrary: nodes) auto

lemma sweep_drop:
  "drop k (foldl (\<lambda>ns i. ns[i := move_node i ns]) nodes [0..<k]) = drop k nodes"
proof (induction k)
  case 0
  show ?case by simp
next
  case (Suc k)
  let ?S = "foldl (\<lambda>ns i. ns[i := move_node i ns]) nodes [0..<k]"
  have "drop (Suc k) (?S[k := move_node k ?S]) = drop (Suc k) ?S" by simp
  also have "\<dots> = drop 1 (drop k ?S)" by simp
  also have "\<dots> = drop 1 (drop k nodes)" by (simp only: Suc)
  finally show ?case by simp
qed

lemma sweep_take:
  "take k (foldl (\<lambda>ns i. ns[i := move_node i ns]) nodes [0..<k + m]) =
   take k (foldl (\<lambda>ns i. ns[i := move_node i ns]) nodes [0..<k])"
  by (induction m) simp_all

lemma apply_forces_nth:
  assumes "i < length nodes"
  shows "apply_forces nodes ! i = move_node i (take i (apply_forces nodes) @ drop i nodes)"
proof -
  let ?step = "\<lambda>ns i. ns[i := move_node i ns]"
  let ?S = "\<lambda>k. foldl ?step nodes [0..<k]"
  from assms obtain m where n: "length nodes = Suc i + m"
    using less_iff_Suc_add by auto
  have "take (Suc i) (apply_forces nodes) = take (Suc i) (?S (Suc i))"
    unfolding apply_forces_def n by (rule sweep_take)
  then have "take (Suc i) (apply_forces nodes) ! i = take (Suc i) (?S (Suc i)) ! i"
    by (rule arg_cong)
  then have "apply_forces nodes ! i = ?S (Suc i) ! i"
    by simp
  also have "\<dots> = move_node i (?S i)"
    using assms by (simp add: sweep_length)
  finally have a: "apply_forces nodes ! i = move_node i (?S i)" .
  have "length nodes = i + Suc m" using n by simp
  then have "take i (apply_forces nodes) = take i (?S i)"
    unfolding apply_forces_def using sweep_take [of i nodes "Suc m"] by simp
  moreover have "drop i (?S i) = drop i nodes" by (rule sweep_drop)
  ultimately have "take i (apply_forces nodes) @ drop i nodes = take i (?S i) @ drop i (?S i)"
    by simp
  then have "take i (apply_forces nodes) @ drop i nodes = ?S i"
    by (simp only: append_take_drop_id)
  with a show ?thesis by simp
qed

lemma apply_forces_fixed:
  assumes "i < length nodes" and "fixed (nodes ! i)"
  shows "apply_forces nodes ! i = nodes ! i"
proof -
  let ?P = "\<lambda>ms. \<forall>j<length nodes. fixed (nodes ! j) \<longrightarrow> ms ! j = nodes ! j"
  have "?P (apply_forces nodes) \<and> length (apply_forces nodes) = length nodes"
  proof (rule apply_forces_induct [where P = ?P])
    show "?P nodes" by simp
  next
    fix k ms
    assume k: "k < length nodes" and len: "length ms = length nodes" and P: "?P ms"
    show "?P (ms[k := move_node k ms])"
    proof (intro allI impI)
      fix j assume j: "j < length nodes" and fx: "fixed (nodes ! j)"
      show "ms[k := move_node k ms] ! j = nodes ! j"
      proof (cases "j = k")
        case True
        from P j fx have "ms ! j = nodes ! j" by simp
        with fx True have "move_node k ms = nodes ! j" by (simp add: move_node_def)
        with True j len show ?thesis by simp
      next
        case False
        with P j fx show ?thesis by simp
      qed
    qed
  qed
  with assms show ?thesis by simp
qed

lemma apply_forces_length: "length (apply_forces nodes) = length nodes"
  by (simp add: apply_forces_def sweep_length)

text \<open>
  Claim C4, amended. Within one sweep the force on node \<open>i\<close> is computed from the
  positions that the nodes before it in the processing order already have after their own
  update in this sweep, and from the start-of-sweep positions of the nodes from \<open>i\<close>
  on. So the deferred-write sweep gives node \<open>i\<close> the same position as the reference
  when all the nodes before it are fixed, as it is for the first node after the anchor.
\<close>

theorem apply_forces_in_place:
  assumes "i < length nodes"
  shows "apply_forces nodes ! i = move_node i (take i (apply_forces nodes) @ drop i nodes) \<and>
         ((\<forall>j<i. fixed (nodes ! j)) \<longrightarrow> apply_forces nodes ! i = apply_forces_snapshot nodes ! i)"
proof
  show nth: "apply_forces nodes ! i = move_node i (take i (apply_forces nodes) @ drop i nodes)"
    using assms by (rule apply_forces_nth)
  show "(\<forall>j<i. fixed (nodes ! j)) \<longrightarrow> apply_forces nodes ! i = apply_forces_snapshot nodes ! i"
  proof
    assume fx: "\<forall>j<i. fixed (nodes ! j)"
    have "take i (apply_forces nodes) = take i nodes"
    proof (rule nth_equalityI)
      show "length (take i (apply_forces nodes)) = length (take i nodes)"
        by (simp add: apply_forces_length)
    next
      fix j assume "j < length (take i (apply_forces nodes))"
      then have j: "j < i" "j < length nodes" by (simp_all add: apply_forces_length)
      with fx apply_forces_fixed [of j nodes] show "take i (apply_forces nodes) ! j = take i nodes ! j"
        by simp
    qed
    with nth have "apply_forces nodes ! i = move_node i nodes" by simp
    with assms show "apply_forces nodes ! i = apply_forces_snapshot nodes ! i"
      by (simp add: apply_forces_snapshot_def)
  qed
qed

lemma sqrt_324: "sqrt 324 = 18"
  using real_sqrt_abs [of 18] by simp

lemma limit_movement_horizontal:
  "\<bar>a\<bar> \<le> MAX_MOVEMENT_PER_ITER \<Longrightarrow> limit_movement (a, 0) = (a, 0)"
  by (simp add: limit_movement_def)

lemmas force_values =
  node_force_def repulsion_step_def attraction_def bounding_box_def boxes_overlap_def
  MARGIN_DISTANCE_def REPULSION_STRENGTH_def ATTRACTION_RATE_def ATTRACTION_WEIGHT_def
  TARGET_SIZE_def CENTER_def MAX_MOVEMENT_PER_ITER_def Let_def enumerate_eq_zip

lemma line_left_force:
  "node_force (Suc 0) [line_anchor, line_left, line_right] = (- (4515533797 / 463360000), 0)"
  by (simp add: force_values line_anchor_def line_left_def line_right_def sqrt_324
      limit_movement_horizontal upt_rec)

lemma line_left_move:
  "move_node (Suc 0) [line_anchor, line_left, line_right] = line_left_moved"
  by (simp add: move_node_def line_left_force)
     (simp add: line_left_def line_left_moved_def)

lemma line_right_force_in_place:
  "node_force (Suc (Suc 0)) [line_anchor, line_left_moved, line_right] = (202457 / 1024000, 0)"
  by (simp add: force_values line_anchor_def line_left_moved_def line_right_def
      limit_movement_horizontal upt_rec)

lemma line_right_force_snapshot:
  "node_force (Suc (Suc 0)) [line_anchor, line_left, line_right] = (1879844717 / 185344000, 0)"
  by (simp add: force_values line_anchor_def line_left_def line_right_def sqrt_324
      limit_movement_horizontal upt_rec)

lemma line_apply_forces:
  "apply_forces [line_anchor, line_left, line_right] =
     [line_anchor, line_left_moved, line_right\<lparr>x := 121034457 / 1024000\<rparr>]"
proof -
  have a: "move_node 0 [line_anchor, line_left, line_right] = line_anchor"
    by (simp add: move_node_def line_anchor_def)
  have c: "move_node (Suc (Suc 0)) [line_anchor, line_left_moved, line_right] =
             line_right\<lparr>x := 121034457 / 1024000\<rparr>"
    by (simp add: move_node_def line_right_force_in_place) (simp add: line_right_def)
  show ?thesis
    by (simp add: apply_forces_def numeral_3_eq_3 a line_left_move c)
qed

lemma line_apply_forces_snapshot:
  "apply_forces_snapshot [line_anchor, line_left, line_right] =
     [line_anchor, line_left_moved, line_right\<lparr>x := 23750436717 / 185344000\<rparr>]"
proof -
  have a: "move_node 0 [line_anchor, line_left, line_right] = line_anchor"
    by (simp add: move_node_def line_anchor_def)
  have c: "move_node (Suc (Suc 0)) [line_anchor, line_left, line_right] =
             line_right\<lparr>x := 23750436717 / 185344000\<rparr>"
    by (simp add: move_node_def line_right_force_snapshot) (simp add: line_right_def)
  show ?thesis
    by (simp add: apply_forces_snapshot_def numeral_3_eq_3 a line_left_move c)
qed

text \<open>
  Claim C4, as stated, fails. Three nodes of 10 by 10 on one line: the anchor at the centre
  and two nodes at \<open>x = 100\<close> and \<open>x = 118\<close>, within the margin of each other. The
  reference moves the left node first, to about 90.25, out of the margin of the right node;
  the right node then feels no repulsion and moves to about 118.2. With positions read from
  the start of the sweep the right node is repelled by the left one and moves to about
  128.1.
\<close>

theorem snapshot_sweep_counterexample:
  "x (apply_forces [line_anchor, line_left, line_right] ! 2) < 119 \<and>
   128 < x (apply_forces_snapshot [line_anchor, line_left, line_right] ! 2) \<and>
   apply_forces [line_anchor, line_left, line_right] \<noteq>
     apply_forces_snapshot [line_anchor, line_left, line_right]"
  unfolding line_apply_forces line_apply_forces_snapshot by (simp add: line_right_def)

text \<open>
  On the same three nodes, the node after the anchor is moved alike by both sweeps.
\<close>

theorem apply_forces_in_place_witness:
  "(1::nat) < length [line_anchor, line_left, line_right] \<and>
   apply_forces [line_anchor, line_left, line_right] ! 1 =
     move_node 1 (take 1 (apply_forces [line_anchor, line_left, line_right]) @
                  drop 1 [line_anchor, line_left, line_right]) \<and>
   apply_forces [line_anchor, line_left, line_right] ! 1 =
     apply_forces_snapshot [line_anchor, line_left, line_right] ! 1"
proof -
  have len: "(1::nat) < length [line_anchor, line_left, line_right]" by simp
  have "\<forall>j<1. fixed ([line_anchor, line_left, line_right] ! j)"
    by (simp add: line_anchor_def)
  with apply_forces_in_place [OF len] len show ?thesis by blast
qed


subsection \<open>Bounding and export\<close>















subsection \<open>The main program\<close>

lemma order_nodes_Nil: "order_nodes t rnd [] = []"
  by (cases t)
     (simp_all add: order_nodes_def sort_by_area_def sort_by_width_def sort_by_height_def
        random_sample_def)

lemma run_trial_no_paths: "run_trial t e k [] = Inl IndexError"
  by (simp add: run_trial_def order_nodes_Nil)

lemma run_trials_no_paths:
  "ks \<noteq> [] \<Longrightarrow> run_trials t e [] count ks saved = (saved, Failed IndexError)"
  by (cases ks) (simp_all add: run_trial_no_paths)

text \<open>
  Claim C8, amended. When the input directory is missing, the directory listing raises an
  \<open>IOError\<close> and the program ends with it, whatever the sort mode and the trial count.
  When the directory exists and holds no image file, every trial would start from an empty
  layout: with at least one trial to run, the first one ends the program with the
  \<open>IndexError\<close> that Initial Placement raises on \<open>nodes[0]\<close>; with no trial to run,
  the program completes. In all three cases no trial output is produced.
\<close>

theorem missing_or_empty_directory:
  "(listdir e INPUT_DIRECTORY = None \<longrightarrow> main_program t random_count e = ([], Failed IOError)) \<and>
   (listdir e INPUT_DIRECTORY = Some names \<longrightarrow> filter is_image_name names = [] \<longrightarrow>
      main_program t random_count e =
        (if trial_count t random_count = 0 then ([], Completed) else ([], Failed IndexError)))"
proof (intro conjI impI)
  assume "listdir e INPUT_DIRECTORY = None"
  then show "main_program t random_count e = ([], Failed IOError)"
    by (simp add: main_program_def)
next
  assume ls: "listdir e INPUT_DIRECTORY = Some names" and none: "filter is_image_name names = []"
  show "main_program t random_count e =
        (if trial_count t random_count = 0 then ([], Completed) else ([], Failed IndexError))"
  proof (cases "trial_count t random_count = 0")
    case True
    then show ?thesis
      by (simp add: main_program_def ls none trial_count_def Let_def split: if_splits)
  next
    case False
    then have "[0..<trial_count t random_count] \<noteq> []" by simp
    from run_trials_no_paths [OF this]
    have "run_trials t e [] (trial_count t random_count) [0..<trial_count t random_count] [] =
            ([], Failed IndexError)" .
    with False show ?thesis
      by (simp add: main_program_def ls none trial_count_def Let_def)
  qed
qed

text \<open>
  Claim C8, as stated, fails: on an empty directory the program, as configured, fails with
  an \<open>IndexError\<close>, which is not an \<open>IOError\<close>.
\<close>

theorem empty_directory_counterexample:
  "main_program SORT_TYPE RANDOM_COUNT empty_dir_env = ([], Failed IndexError) \<and>
   IndexError \<noteq> IOError"
proof -
  have "[0..<RANDOM_COUNT] \<noteq> []" by (simp add: RANDOM_COUNT_def)
  from run_trials_no_paths [OF this]
  have "run_trials RANDOM empty_dir_env [] RANDOM_COUNT [0..<RANDOM_COUNT] [] =
          ([], Failed IndexError)" .
  then show ?thesis
    by (simp add: main_program_def empty_dir_env_def empty_listing_def SORT_TYPE_def
        trial_count_def Let_def)
qed

text \<open>
  A missing directory with 25 random trials, an empty one sorted by area, and an empty one
  with no trial to run.
\<close>

theorem missing_or_empty_directory_witness:
  "listdir missing_dir_env INPUT_DIRECTORY = None \<and>
   main_program RANDOM 25 missing_dir_env = ([], Failed IOError) \<and>
   listdir empty_dir_env INPUT_DIRECTORY = Some [] \<and> filter is_image_name [] = [] \<and>
   main_program AREA 25 empty_dir_env = ([], Failed IndexError) \<and>
   main_program RANDOM 0 empty_dir_env = ([], Completed)"
proof -
  have m: "listdir missing_dir_env INPUT_DIRECTORY = None"
    by (simp add: missing_dir_env_def missing_listing_def)
  have l: "listdir empty_dir_env INPUT_DIRECTORY = Some []"
    by (simp add: empty_dir_env_def empty_listing_def)
  have f: "filter is_image_name [] = []" by simp
  from missing_or_empty_directory [of missing_dir_env RANDOM 25 "[]"] m
  have a: "main_program RANDOM 25 missing_dir_env = ([], Failed IOError)" by blast
  from missing_or_empty_directory [of empty_dir_env AREA 25 "[]"] l f
  have b: "main_program AREA 25 empty_dir_env = ([], Failed IndexError)"
    by (simp add: trial_count_def)
  from missing_or_empty_directory [of empty_dir_env RANDOM 0 "[]"] l f
  have c: "main_program RANDOM 0 empty_dir_env = ([], Completed)"
    by (simp add: trial_count_def)
  from m l f a b c show ?thesis by blast
qed

end
